theory Spec2Isabelle
  imports Complex_Main "HOL-Library.Word" "HOL-Library.Sublist"
begin

section \<open>Events handler of the disk-encryption plugin (eventshandler.cpp)\<close>

text \<open>
  The theory embeds \<^verbatim>\<open>EventsHandler\<close>: the six daemon notification handlers, the
  outcome presenters, the two dialog registries and the synchronous password hook.
  Widgets, the bus and the user are outside the program, so their answers are arguments of
  the model and their effects are recorded in a list of events kept in the state.
\<close>

subsection \<open>Strings: \<^verbatim>\<open>QString::arg\<close>, \<^verbatim>\<open>QString::mid\<close>, number rendering\<close>

text \<open>
  \<^verbatim>\<open>QString::arg(a)\<close> replaces every occurrence of the lowest-numbered place marker of
  the string by \<^verbatim>\<open>a\<close>. A place marker is a percent sign, an optional \<^verbatim>\<open>L\<close>, and one or two
  decimal digits. A string without a place marker is returned unchanged. The field width is
  0 at every call of the file, so nothing is padded. \<^verbatim>\<open>tr\<close> is the identity (no translation
  catalogue is loaded) and numbers are rendered in the C locale, where the localized form
  requested by \<^verbatim>\<open>%L\<close> equals the plain decimal form. Strings are lists of 8-bit
  characters, and the digits of a place marker are the ASCII digits.
\<close>

definition isDigit :: "char \<Rightarrow> bool" where
  "isDigit c = (48 \<le> (of_char c :: nat) \<and> (of_char c :: nat) \<le> 57)"

definition digitValue :: "char \<Rightarrow> nat" where
  "digitValue c = (of_char c :: nat) - 48"

text \<open>
  What follows a percent sign: the digits of a marker, read after an optional \<^verbatim>\<open>L\<close>.
  The result is the marker's number, the characters it is written with, and the rest.
\<close>

fun markerDigits :: "string \<Rightarrow> (nat \<times> string \<times> string) option" where
  "markerDigits [] = None"
| "markerDigits [d] = (if isDigit d then Some (digitValue d, [d], []) else None)"
| "markerDigits (d # e # cs) =
     (if \<not> isDigit d then None
      else if isDigit e then Some (10 * digitValue d + digitValue e, [d, e], cs)
      else Some (digitValue d, [d], e # cs))"

fun placeMarker :: "string \<Rightarrow> (nat \<times> string \<times> string) option" where
  "placeMarker [] = None"
| "placeMarker (c # cs) =
     (if c = CHR ''L''
      then (case markerDigits cs of
              None \<Rightarrow> None
            | Some (n, txt, rest) \<Rightarrow> Some (n, c # txt, rest))
      else markerDigits (c # cs))"

datatype Piece = Text char | Marker nat string

lemma markerDigits_shorter:
  "markerDigits cs = Some (n, txt, rest) \<Longrightarrow> length rest < length cs"
  by (induction cs rule: markerDigits.induct) (auto split: if_splits)

lemma placeMarker_shorter:
  "placeMarker cs = Some (n, txt, rest) \<Longrightarrow> length rest < length cs"
  by (cases cs) (auto split: if_splits option.splits dest: markerDigits_shorter)

function scanMarkers :: "string \<Rightarrow> Piece list" where
  "scanMarkers [] = []"
| "scanMarkers (c # cs) =
     (if c = CHR ''%''
      then (case placeMarker cs of
              None \<Rightarrow> Text c # scanMarkers cs
            | Some (n, txt, rest) \<Rightarrow> Marker n (c # txt) # scanMarkers rest)
      else Text c # scanMarkers cs)"
  by pat_completeness auto
termination
  by (relation "measure length") (auto dest: placeMarker_shorter)

fun markerNumbers :: "Piece list \<Rightarrow> nat list" where
  "markerNumbers [] = []"
| "markerNumbers (Text c # ps) = markerNumbers ps"
| "markerNumbers (Marker n txt # ps) = n # markerNumbers ps"

fun fillPiece :: "nat \<Rightarrow> string \<Rightarrow> Piece \<Rightarrow> string" where
  "fillPiece m a (Text c) = [c]"
| "fillPiece m a (Marker n txt) = (if n = m then a else txt)"

definition arg :: "string \<Rightarrow> string \<Rightarrow> string" where
  "arg s a =
     (let ps = scanMarkers s in
      case markerNumbers ps of
        [] \<Rightarrow> s
      | n # ns \<Rightarrow> concat (map (fillPiece (fold min ns n) a) ps))"

text \<open>\<^verbatim>\<open>QString::mid(5)\<close>: the string from position 5 on, empty when it is shorter.\<close>

definition mid :: "string \<Rightarrow> nat \<Rightarrow> string" where
  "mid s pos = drop pos s"

text \<open>Decimal rendering of a number, as \<^verbatim>\<open>QString::arg(int)\<close> with base 10 produces it.\<close>

fun decimalNat :: "nat \<Rightarrow> string" where
  "decimalNat n =
     (if n < 10 then [char_of (48 + n)]
      else decimalNat (n div 10) @ [char_of (48 + n mod 10)])"

definition decimal :: "int \<Rightarrow> string" where
  "decimal i = (if i < 0 then CHR ''-'' # decimalNat (nat (- i)) else decimalNat (nat i))"

text \<open>
  The label of a device in every dialog, written at each of its eight sites as
  \<^verbatim>\<open>QString("%1(%2)").arg(devName).arg(dev.mid(5))\<close>.
\<close>

definition deviceLabel :: "string \<Rightarrow> string \<Rightarrow> string" where
  "deviceLabel devName dev = arg (arg ''%1(%2)'' devName) (mid dev 5)"

subsection \<open>Declarations outside this file\<close>

text \<open>
  The enumerators of \<^verbatim>\<open>dfmplugin_disk_encrypt_global.h\<close> are used by the handlers but
  declared elsewhere: their numeric values are parameters of the model. Result codes are
  C \<^verbatim>\<open>int\<close>s, negated by the handlers, so they are 32-bit words, read as two's complement by
  \<open>sint\<close>, and the negation wraps. Key types are only compared.
\<close>

type_synonym cint = "32 word"

record Globals =
  kSuccess :: cint
  kUserCancelled :: cint
  kErrorWrongPassphrase :: cint
  kErrorChangePassphraseFailed :: cint
  kRebootRequired :: cint
  kPasswordOnly :: int
  kTPMAndPIN :: int
  kTPMOnly :: int

text \<open>\<^verbatim>\<open>dialog_utils::kInfo\<close> and \<^verbatim>\<open>dialog_utils::kError\<close>, the two severities passed here.\<close>

datatype Severity = kInfo | kError

text \<open>
  \<^verbatim>\<open>UnlockPartitionDialog::UnlockType\<close>. The file names \<^verbatim>\<open>kPwd\<close> and \<^verbatim>\<open>kPin\<close> and
  tests for \<^verbatim>\<open>kPin\<close> only; \<open>kRec\<close> stands for any other kind of key the dialog returns.
\<close>

datatype UnlockType = kPwd | kPin | kRec

text \<open>
  What the user did with an \<^verbatim>\<open>UnlockPartitionDialog\<close>: the value of \<^verbatim>\<open>exec()\<close> and the
  pair returned by \<^verbatim>\<open>getUnlockKey()\<close>.
\<close>

record UnlockAnswer =
  execResult :: int
  unlockKey :: "UnlockType \<times> string"

subsection \<open>The handler's state\<close>

type_synonym DialogPtr = nat

text \<open>
  A slot connected to a dialog's \<^verbatim>\<open>destroyed\<close> signal. The only one of the file is the
  lambda \<^verbatim>\<open>[this, dev] { encryptDialogs.remove(dev); }\<close>.
\<close>

datatype Slot = RemoveEncryptDialog string

record EncryptProcessDialog =
  dlgTitle :: string
  dlgProgress :: "real option"
  dlgVisible :: bool
  destroyedSlots :: "Slot list"

datatype UiEvent =
    RestoreOverrideCursor
  | ShowDialog string string Severity
  | RebootDialog string string
  | RequestReboot
  | NewProcessDialog DialogPtr
  | UpdateProgress DialogPtr real
  | ShowProcessDialog DialogPtr
  | DeleteDialog DialogPtr
  | DeleteLater DialogPtr

text \<open>
  The two registries map a device to a pointer; the dialog objects live in a store indexed by
  pointer, where a destroyed object leaves \<open>None\<close>. The override-cursor stack of the
  application is kept as its depth. \<open>events\<close> lists, in order, what the handlers did to the
  user interface.
\<close>

record EventsHandler =
  encryptDialogs :: "string \<rightharpoonup> DialogPtr"
  decryptDialogs :: "string \<rightharpoonup> DialogPtr"
  dialogs :: "EncryptProcessDialog option list"
  overrideCursors :: nat
  deferredDeletes :: "DialogPtr list"
  events :: "UiEvent list"

datatype Error = UseAfterFree | NullDialog

definition initialHandler :: EventsHandler where
  "initialHandler =
     \<lparr>encryptDialogs = Map.empty, decryptDialogs = Map.empty, dialogs = [],
      overrideCursors = 0, deferredDeletes = [], events = []\<rparr>"

definition emit :: "UiEvent \<Rightarrow> EventsHandler \<Rightarrow> EventsHandler" where
  "emit e s = s\<lparr>events := events s @ [e]\<rparr>"

text \<open>
  \<^verbatim>\<open>QApplication::restoreOverrideCursor()\<close> undoes the last override cursor and does
  nothing when there is none.
\<close>

definition restoreOverrideCursor :: "EventsHandler \<Rightarrow> EventsHandler" where
  "restoreOverrideCursor s = emit RestoreOverrideCursor (s\<lparr>overrideCursors := overrideCursors s - 1\<rparr>)"

definition dialogAt :: "EventsHandler \<Rightarrow> DialogPtr \<Rightarrow> EncryptProcessDialog option" where
  "dialogAt s p = (if p < length (dialogs s) then dialogs s ! p else None)"

text \<open>\<^verbatim>\<open>new EncryptProcessDialog(title)\<close>, with the slots connected right after.\<close>

definition newDialog :: "string \<Rightarrow> Slot list \<Rightarrow> EventsHandler \<Rightarrow> DialogPtr \<times> EventsHandler" where
  "newDialog title slots s =
     (length (dialogs s),
      emit (NewProcessDialog (length (dialogs s)))
        (s\<lparr>dialogs := dialogs s @
              [Some \<lparr>dlgTitle = title, dlgProgress = None, dlgVisible = False,
                     destroyedSlots = slots\<rparr>]\<rparr>))"

fun runSlot :: "Slot \<Rightarrow> EventsHandler \<Rightarrow> EventsHandler" where
  "runSlot (RemoveEncryptDialog dev) s = s\<lparr>encryptDialogs := (encryptDialogs s)(dev := None)\<rparr>"

text \<open>
  Destruction of a dialog object (\<^verbatim>\<open>delete\<close>, or the object dying by any other way): the
  slots connected to \<^verbatim>\<open>destroyed\<close> run and the object is gone. Deleting through a pointer
  whose object is gone already is an error.
\<close>

definition destroyDialog :: "DialogPtr \<Rightarrow> EventsHandler \<Rightarrow> Error + EventsHandler" where
  "destroyDialog p s =
     (case dialogAt s p of
        None \<Rightarrow> Inl UseAfterFree
      | Some d \<Rightarrow>
          Inr (emit (DeleteDialog p)
                 (fold runSlot (destroyedSlots d) (s\<lparr>dialogs := (dialogs s)[p := None]\<rparr>))))"

text \<open>\<^verbatim>\<open>deleteLater()\<close> queues the object for deletion by the event loop.\<close>

definition deleteLater :: "DialogPtr \<Rightarrow> EventsHandler \<Rightarrow> Error + EventsHandler" where
  "deleteLater p s =
     (case dialogAt s p of
        None \<Rightarrow> Inl UseAfterFree
      | Some d \<Rightarrow> Inr (emit (DeleteLater p) (s\<lparr>deferredDeletes := deferredDeletes s @ [p]\<rparr>)))"

definition updateProgress :: "DialogPtr \<Rightarrow> real \<Rightarrow> EventsHandler \<Rightarrow> Error + EventsHandler" where
  "updateProgress p v s =
     (case dialogAt s p of
        None \<Rightarrow> Inl UseAfterFree
      | Some d \<Rightarrow>
          Inr (emit (UpdateProgress p v)
                 (s\<lparr>dialogs := (dialogs s)[p := Some (d\<lparr>dlgProgress := Some v\<rparr>)]\<rparr>)))"

definition showProcessDialog :: "DialogPtr \<Rightarrow> EventsHandler \<Rightarrow> Error + EventsHandler" where
  "showProcessDialog p s =
     (case dialogAt s p of
        None \<Rightarrow> Inl UseAfterFree
      | Some d \<Rightarrow>
          Inr (emit (ShowProcessDialog p)
                 (s\<lparr>dialogs := (dialogs s)[p := Some (d\<lparr>dlgVisible := True\<rparr>)]\<rparr>)))"

text \<open>\<^verbatim>\<open>dialog_utils::showDialog\<close>: a blocking advisory with a title, a message and an icon.\<close>

definition showDialog :: "string \<Rightarrow> string \<Rightarrow> Severity \<Rightarrow> EventsHandler \<Rightarrow> EventsHandler" where
  "showDialog title msg sev s = emit (ShowDialog title msg sev) s"

definition requestReboot :: "EventsHandler \<Rightarrow> EventsHandler" where
  "requestReboot s = emit RequestReboot s"

subsection \<open>Outcome presenters\<close>

text \<open>
  Each \<^verbatim>\<open>switch (-code)\<close> is an \<open>if\<close> chain over the case labels in the source's order.
  The argument \<open>choice\<close> of the two reboot dialogs is the value of \<^verbatim>\<open>dlg.exec()\<close>: the
  index of the button the user pressed.
\<close>

definition showPreEncryptError ::
  "Globals \<Rightarrow> string \<Rightarrow> string \<Rightarrow> cint \<Rightarrow> EventsHandler \<Rightarrow> EventsHandler" where
  "showPreEncryptError g dev devName code s =
     (let device = deviceLabel devName dev;
          (title, msg, showError) =
            (if - code = kSuccess g then
               (''Preencrypt done'',
                arg ''Device %1 has been preencrypt, please reboot to finish encryption.'' device,
                False)
             else if - code = kUserCancelled g then
               (''Encrypt disk'', ''User cancelled operation'', False)
             else
               (''Preencrypt failed'',
                arg (arg ''Device %1 preencrypt failed, please see log for more information.(%2)''
                       device) (decimal (sint code)),
                True))
      in showDialog title msg (if showError then kError else kInfo) s)"

definition showDecryptError ::
  "Globals \<Rightarrow> string \<Rightarrow> string \<Rightarrow> cint \<Rightarrow> EventsHandler \<Rightarrow> EventsHandler" where
  "showDecryptError g dev devName code s =
     (let device = deviceLabel devName dev;
          (title, msg, showFailed) =
            (if - code = kSuccess g then
               (''Decrypt done'', arg ''Device %1 has been decrypted'' device, False)
             else if - code = kUserCancelled g then
               (''Decrypt disk'', ''User cancelled operation'', False)
             else if - code = kErrorWrongPassphrase g then
               (''Decrypt disk'', ''Wrong passpharse or PIN'', True)
             else
               (''Decrypt failed'',
                arg (arg ''Device %1 Decrypt failed, please see log for more information.(%2)''
                       device) (decimal (sint code)),
                True))
      in showDialog title msg (if showFailed then kError else kInfo) s)"

definition showChgPwdError ::
  "Globals \<Rightarrow> string \<Rightarrow> string \<Rightarrow> cint \<Rightarrow> EventsHandler \<Rightarrow> EventsHandler" where
  "showChgPwdError g dev devName code s =
     (let device = deviceLabel devName dev;
          (title, msg, showError) =
            (if - code = kSuccess g then
               (''Change passphrase done'',
                arg (''%1'' @ [CHR 0x27] @ ''s passphrase has been changed'') device, False)
             else if - code = kUserCancelled g then
               (''Change passphrase'', ''User cancelled operation'', False)
             else if - code = kErrorChangePassphraseFailed g then
               (''Change passphrase failed'', ''Wrong passpharse or PIN'', True)
             else
               (''Change passphrase failed'',
                arg (arg ''Device %1 change passphrase failed, please see log for more information.(%2)''
                       device) (decimal (sint code)),
                True))
      in showDialog title msg (if showError then kError else kInfo) s)"

definition showRebootOnPreencrypted ::
  "int \<Rightarrow> string \<Rightarrow> string \<Rightarrow> EventsHandler \<Rightarrow> EventsHandler" where
  "showRebootOnPreencrypted choice device devName s =
     (let dev = deviceLabel devName device;
          s1 = emit (RebootDialog ''Preencrypt done''
                       (arg ''Device %1 has been preencrypt, please reboot to finish encryption.'' dev)) s
      in if choice = 1 then requestReboot s1 else s1)"

definition showRebootOnDecrypted ::
  "int \<Rightarrow> string \<Rightarrow> string \<Rightarrow> EventsHandler \<Rightarrow> EventsHandler" where
  "showRebootOnDecrypted choice device devName s =
     (let dev = deviceLabel devName device;
          s1 = emit (RebootDialog ''Decrypt device''
                       (arg ''Please reboot to decrypt device %1.'' dev)) s
      in if choice = 1 then requestReboot s1 else s1)"

subsection \<open>The six notification handlers\<close>

text \<open>The third, unnamed string parameter of three of the signals is \<open>aux\<close>.\<close>

definition onPreencryptResult ::
  "Globals \<Rightarrow> int \<Rightarrow> string \<Rightarrow> string \<Rightarrow> string \<Rightarrow> cint \<Rightarrow> EventsHandler \<Rightarrow> EventsHandler" where
  "onPreencryptResult g choice dev devName aux code s =
     (let s1 = restoreOverrideCursor s in
      if code \<noteq> kSuccess g then showPreEncryptError g dev devName code s1
      else showRebootOnPreencrypted choice dev devName s1)"

definition onEncryptResult ::
  "string \<Rightarrow> string \<Rightarrow> cint \<Rightarrow> EventsHandler \<Rightarrow> Error + EventsHandler" where
  "onEncryptResult dev devName code s =
     (let s1 = restoreOverrideCursor s;
          removed =
            (case encryptDialogs s1 dev of
               None \<Rightarrow> Inr s1
             | Some p \<Rightarrow>
                 (case destroyDialog p s1 of
                    Inl e \<Rightarrow> Inl e
                  | Inr s2 \<Rightarrow> Inr (s2\<lparr>encryptDialogs := (encryptDialogs s2)(dev := None)\<rparr>)))
      in case removed of
           Inl e \<Rightarrow> Inl e
         | Inr s3 \<Rightarrow>
             (let device = deviceLabel devName dev;
                  title = (if code \<noteq> 0 then ''Encrypt failed'' else ''Encrypt done'');
                  msg = (if code \<noteq> 0
                         then arg (arg ''Device %1 encrypt failed, please see log for more information.(%2)''
                                     device) (decimal (sint code))
                         else arg ''Device %1 has been encrypted'' device)
              in Inr (showDialog title msg (if code \<noteq> 0 then kError else kInfo) s3)))"

definition onDecryptResult ::
  "Globals \<Rightarrow> int \<Rightarrow> string \<Rightarrow> string \<Rightarrow> string \<Rightarrow> cint \<Rightarrow> EventsHandler
     \<Rightarrow> Error + EventsHandler" where
  "onDecryptResult g choice dev devName aux code s =
     (let s1 = restoreOverrideCursor s;
          removed =
            (case decryptDialogs s1 dev of
               None \<Rightarrow> Inr s1
             | Some p \<Rightarrow>
                 (case deleteLater p s1 of
                    Inl e \<Rightarrow> Inl e
                  | Inr s2 \<Rightarrow> Inr (s2\<lparr>decryptDialogs := (decryptDialogs s2)(dev := None)\<rparr>)))
      in case removed of
           Inl e \<Rightarrow> Inl e
         | Inr s3 \<Rightarrow>
             (if code = - kRebootRequired g
              then Inr (showRebootOnDecrypted choice dev devName s3)
              else Inr (showDecryptError g dev devName code s3)))"

definition onChgPassphraseResult ::
  "Globals \<Rightarrow> string \<Rightarrow> string \<Rightarrow> string \<Rightarrow> cint \<Rightarrow> EventsHandler \<Rightarrow> EventsHandler" where
  "onChgPassphraseResult g dev devName aux code s =
     showChgPwdError g dev devName code (restoreOverrideCursor s)"

text \<open>
  \<^verbatim>\<open>QMap::value\<close> of a key that is absent is a null pointer; the branch cannot be taken
  after the insertion above it, and is an error in the model.
\<close>

definition onEncryptProgress ::
  "string \<Rightarrow> string \<Rightarrow> real \<Rightarrow> EventsHandler \<Rightarrow> Error + EventsHandler" where
  "onEncryptProgress dev devName progress s =
     (let s1 =
            (if encryptDialogs s dev = None then
               (let device = deviceLabel devName dev;
                    (dlg, s') = newDialog (arg ''Encrypting...%1'' device) [RemoveEncryptDialog dev]
                                  (restoreOverrideCursor s)
                in s'\<lparr>encryptDialogs := (encryptDialogs s')(dev \<mapsto> dlg)\<rparr>)
             else s)
      in case encryptDialogs s1 dev of
           None \<Rightarrow> Inl NullDialog
         | Some dlg \<Rightarrow>
             (case updateProgress dlg progress s1 of
                Inl e \<Rightarrow> Inl e
              | Inr s2 \<Rightarrow> showProcessDialog dlg s2))"

definition onDecryptProgress ::
  "string \<Rightarrow> string \<Rightarrow> real \<Rightarrow> EventsHandler \<Rightarrow> Error + EventsHandler" where
  "onDecryptProgress dev devName progress s =
     (let s1 =
            (if decryptDialogs s dev = None then
               (let device = deviceLabel devName dev;
                    (dlg, s') = newDialog (arg ''Decrypting...%1'' device) []
                                  (restoreOverrideCursor s)
                in s'\<lparr>decryptDialogs := (decryptDialogs s')(dev \<mapsto> dlg)\<rparr>)
             else s)
      in case decryptDialogs s1 dev of
           None \<Rightarrow> Inl NullDialog
         | Some dlg \<Rightarrow>
             (case updateProgress dlg progress s1 of
                Inl e \<Rightarrow> Inl e
              | Inr s2 \<Rightarrow> showProcessDialog dlg s2))"

subsection \<open>Acquiring the passphrase of a device\<close>

text \<open>
  The reference parameter \<^verbatim>\<open>bool &cancelled\<close> is passed in and returned. The TPM lookup
  \<^verbatim>\<open>tpm_passphrase_utils::getPassphraseFromTPM\<close> and the key-type lookup
  \<^verbatim>\<open>device_utils::encKeyType\<close> are functions given to the model.
\<close>

definition acquirePassphrase :: "UnlockAnswer \<Rightarrow> string \<Rightarrow> bool \<Rightarrow> string \<times> bool" where
  "acquirePassphrase dlg dev cancelled =
     (if execResult dlg \<noteq> 1 then ([], True)
      else (snd (unlockKey dlg), cancelled))"

definition acquirePassphraseByPIN ::
  "(string \<Rightarrow> string \<Rightarrow> string) \<Rightarrow> UnlockAnswer \<Rightarrow> string \<Rightarrow> bool \<Rightarrow> string \<times> bool" where
  "acquirePassphraseByPIN getPassphraseFromTPM dlg dev cancelled =
     (if execResult dlg \<noteq> 1 then ([], True)
      else (let keys = unlockKey dlg in
            if fst keys = kPin then (getPassphraseFromTPM dev (snd keys), cancelled)
            else (snd keys, cancelled)))"

definition acquirePassphraseByTPM ::
  "(string \<Rightarrow> string \<Rightarrow> string) \<Rightarrow> string \<Rightarrow> bool \<Rightarrow> string \<times> bool" where
  "acquirePassphraseByTPM getPassphraseFromTPM dev cancelled =
     (getPassphraseFromTPM dev [], cancelled)"

text \<open>
  The two output pointers are \<open>None\<close> when null. The result holds the returned flag, the
  two slots after the call and the handler, whose events gained the advisory if one was shown.
\<close>

record Acquired =
  returned :: bool
  pwdSlot :: "string option"
  cancelledSlot :: "bool option"
  handler :: EventsHandler

definition onAcquireDevicePwd ::
  "Globals \<Rightarrow> (string \<Rightarrow> int) \<Rightarrow> (string \<Rightarrow> string \<Rightarrow> string) \<Rightarrow> UnlockAnswer
     \<Rightarrow> string \<Rightarrow> string option \<Rightarrow> bool option \<Rightarrow> EventsHandler \<Rightarrow> Acquired" where
  "onAcquireDevicePwd g encKeyType getPassphraseFromTPM dlg dev pwd cancelled s =
     (case (pwd, cancelled) of
        (Some pwd0, Some cancelled0) \<Rightarrow>
          (let type = encKeyType dev;
               acquired =
                 (if type = kTPMAndPIN g then
                    Some (acquirePassphraseByPIN getPassphraseFromTPM dlg dev cancelled0)
                  else if type = kTPMOnly g then
                    Some (acquirePassphraseByTPM getPassphraseFromTPM dev cancelled0)
                  else if type = kPasswordOnly g then
                    Some (acquirePassphrase dlg dev cancelled0)
                  else None)
           in case acquired of
                None \<Rightarrow>
                  \<lparr>returned = False, pwdSlot = pwd, cancelledSlot = cancelled, handler = s\<rparr>
              | Some (pwd1, cancelled1) \<Rightarrow>
                  (if pwd1 = [] \<and> \<not> cancelled1 then
                     (let title = (if type = kTPMAndPIN g then ''Wrong PIN''
                                   else if type = kPasswordOnly g then ''Wrong passphrase''
                                   else ''TPM error'')
                      in \<lparr>returned = True, pwdSlot = Some pwd1, cancelledSlot = Some True,
                          handler = showDialog title ''Please use recovery key to unlock device.''
                                      kInfo s\<rparr>)
                   else
                     \<lparr>returned = True, pwdSlot = Some pwd1, cancelledSlot = Some cancelled1,
                      handler = s\<rparr>))
      | _ \<Rightarrow> \<lparr>returned = False, pwdSlot = pwd, cancelledSlot = cancelled, handler = s\<rparr>)"

subsection \<open>Values for the examples\<close>

text \<open>
  The examples below run the handlers on these values of the enumerators; the general
  theorems hold for any values.
\<close>

definition sampleGlobals :: Globals where
  "sampleGlobals =
     \<lparr>kSuccess = 0, kUserCancelled = 1, kErrorWrongPassphrase = 2,
      kErrorChangePassphraseFailed = 3, kRebootRequired = 4,
      kPasswordOnly = 0, kTPMAndPIN = 1, kTPMOnly = 2\<rparr>"

text \<open>Key-type lookups that answer the same for every device.\<close>

definition passwordOnlyDevices :: "string \<Rightarrow> int" where
  "passwordOnlyDevices dev = kPasswordOnly sampleGlobals"

definition pinDevices :: "string \<Rightarrow> int" where
  "pinDevices dev = kTPMAndPIN sampleGlobals"

definition unknownDevices :: "string \<Rightarrow> int" where
  "unknownDevices dev = 7"

text \<open>A TPM that knows the PIN 1234 of every device and nothing else.\<close>

definition sampleTPM :: "string \<Rightarrow> string \<Rightarrow> string" where
  "sampleTPM dev pin = (if pin = ''1234'' then ''secret'' else [])"

subsection \<open>What the caller of the password hook can observe\<close>

definition passphraseGiven :: "Acquired \<Rightarrow> bool" where
  "passphraseGiven r = (case pwdSlot r of None \<Rightarrow> False | Some p \<Rightarrow> p \<noteq> [])"

definition cancelledSet :: "Acquired \<Rightarrow> bool" where
  "cancelledSet r = (cancelledSlot r = Some True)"

subsection \<open>Observations on the handlers\<close>

text \<open>The events a handler added, given the state before and the state after.\<close>

definition newEvents :: "EventsHandler \<Rightarrow> EventsHandler \<Rightarrow> UiEvent list" where
  "newEvents s s' = drop (length (events s)) (events s')"

text \<open>Events that put a dialog on the screen.\<close>

fun presentsDialog :: "UiEvent \<Rightarrow> bool" where
  "presentsDialog (ShowDialog title msg sev) = True"
| "presentsDialog (RebootDialog title msg) = True"
| "presentsDialog (ShowProcessDialog p) = True"
| "presentsDialog e = False"

text \<open>
  A list of events clears the cursor first when a \<^verbatim>\<open>restoreOverrideCursor\<close> comes before
  the first dialog it presents.
\<close>

fun clearedBeforeDialog :: "UiEvent list \<Rightarrow> bool" where
  "clearedBeforeDialog [] = True"
| "clearedBeforeDialog (RestoreOverrideCursor # es) = True"
| "clearedBeforeDialog (e # es) = (if presentsDialog e then False else clearedBeforeDialog es)"

text \<open>A registry entry is live when it is absent or points to a dialog that still exists.\<close>

definition entryLive :: "EventsHandler \<Rightarrow> DialogPtr option \<Rightarrow> bool" where
  "entryLive s e = (case e of None \<Rightarrow> True | Some p \<Rightarrow> dialogAt s p \<noteq> None)"

text \<open>A run of progress notifications for one device; it stops at the first error.\<close>

fun encryptProgressRun :: "string \<Rightarrow> string \<Rightarrow> real list \<Rightarrow> EventsHandler \<Rightarrow> Error + EventsHandler" where
  "encryptProgressRun dev devName [] s = Inr s"
| "encryptProgressRun dev devName (v # vs) s =
     (case onEncryptProgress dev devName v s of
        Inl e \<Rightarrow> Inl e
      | Inr s' \<Rightarrow> encryptProgressRun dev devName vs s')"

fun decryptProgressRun :: "string \<Rightarrow> string \<Rightarrow> real list \<Rightarrow> EventsHandler \<Rightarrow> Error + EventsHandler" where
  "decryptProgressRun dev devName [] s = Inr s"
| "decryptProgressRun dev devName (v # vs) s =
     (case onDecryptProgress dev devName v s of
        Inl e \<Rightarrow> Inl e
      | Inr s' \<Rightarrow> decryptProgressRun dev devName vs s')"

text \<open>
  A state in which the encryption of \<^verbatim>\<open>/dev/sda1\<close> is under way: its dialog is
  registered and shown, and some other part of the application has set a wait cursor since.
\<close>

definition encryptingState :: EventsHandler where
  "encryptingState =
     \<lparr>encryptDialogs = [''/dev/sda1'' \<mapsto> 0], decryptDialogs = Map.empty,
      dialogs = [Some \<lparr>dlgTitle = ''Encrypting...Data(sda1)'', dlgProgress = Some (1 / 4),
                       dlgVisible = True,
                       destroyedSlots = [RemoveEncryptDialog ''/dev/sda1'']\<rparr>],
      overrideCursors = 1, deferredDeletes = [],
      events = [RestoreOverrideCursor, NewProcessDialog 0, UpdateProgress 0 (1 / 4),
                ShowProcessDialog 0]\<rparr>"

text \<open>The same for a decryption.\<close>

definition decryptingState :: EventsHandler where
  "decryptingState =
     \<lparr>encryptDialogs = Map.empty, decryptDialogs = [''/dev/sda1'' \<mapsto> 0],
      dialogs = [Some \<lparr>dlgTitle = ''Decrypting...Data(sda1)'', dlgProgress = Some (1 / 4),
                       dlgVisible = True, destroyedSlots = []\<rparr>],
      overrideCursors = 1, deferredDeletes = [],
      events = [RestoreOverrideCursor, NewProcessDialog 0, UpdateProgress 0 (1 / 4),
                ShowProcessDialog 0]\<rparr>"

text \<open>
  A sequence of progress notifications of one kind for any devices, each given as device,
  display name and progress.
\<close>

fun encryptProgressSeq :: "(string \<times> string \<times> real) list \<Rightarrow> EventsHandler \<Rightarrow> Error + EventsHandler" where
  "encryptProgressSeq [] s = Inr s"
| "encryptProgressSeq ((dev, devName, v) # ns) s =
     (case onEncryptProgress dev devName v s of
        Inl e \<Rightarrow> Inl e
      | Inr s' \<Rightarrow> encryptProgressSeq ns s')"

fun decryptProgressSeq :: "(string \<times> string \<times> real) list \<Rightarrow> EventsHandler \<Rightarrow> Error + EventsHandler" where
  "decryptProgressSeq [] s = Inr s"
| "decryptProgressSeq ((dev, devName, v) # ns) s =
     (case onDecryptProgress dev devName v s of
        Inl e \<Rightarrow> Inl e
      | Inr s' \<Rightarrow> decryptProgressSeq ns s')"

text \<open>
  The decryption state after the dialog of \<^verbatim>\<open>/dev/sda1\<close> has been destroyed: nothing is
  connected to the \<^verbatim>\<open>destroyed\<close> signal of a decryption dialog, so the entry is still there.
\<close>

definition decryptDestroyedState :: EventsHandler where
  "decryptDestroyedState =
     decryptingState\<lparr>dialogs := [None], events := events decryptingState @ [DeleteDialog 0]\<rparr>"

text \<open>A handler without dialogs while two override cursors are set.\<close>

definition twoCursorsState :: EventsHandler where
  "twoCursorsState = initialHandler\<lparr>overrideCursors := 2\<rparr>"

text \<open>
  Replays a list of events from an override-cursor stack of depth \<open>n\<close>: each
  \<^verbatim>\<open>restoreOverrideCursor\<close> undoes one cursor. The result tells whether some dialog is
  presented while an override cursor is still set.
\<close>

fun dialogUnderCursor :: "nat \<Rightarrow> UiEvent list \<Rightarrow> bool" where
  "dialogUnderCursor n [] = False"
| "dialogUnderCursor n (RestoreOverrideCursor # es) = dialogUnderCursor (n - 1) es"
| "dialogUnderCursor n (e # es) = (presentsDialog e \<and> 0 < n \<or> dialogUnderCursor n es)"

section \<open>Auxiliary lemmas\<close>

subsection \<open>Place markers\<close>

lemma scanMarkers_plain:
  "CHR ''%'' \<notin> set xs \<Longrightarrow> scanMarkers (xs @ ys) = map Text xs @ scanMarkers ys"
  by (induction xs) auto

lemma markerNumbers_append:
  "markerNumbers (ps @ qs) = markerNumbers ps @ markerNumbers qs"
  by (induction ps rule: markerNumbers.induct) auto

lemma markerNumbers_Text: "markerNumbers (map Text xs) = []"
  by (induction xs) auto

lemma fill_Text: "concat (map (fillPiece m a \<circ> Text) xs) = xs"
  by (induction xs) auto

lemma markerDigits_nondigit: "\<not> isDigit c \<Longrightarrow> markerDigits (c # ys) = None"
  by (cases ys) simp_all

lemma markerDigits_append:
  "\<not> isDigit c \<Longrightarrow>
   markerDigits (xs @ c # ys) =
     (case markerDigits xs of None \<Rightarrow> None | Some (n, txt, rest) \<Rightarrow> Some (n, txt, rest @ c # ys))"
  by (induction xs rule: markerDigits.induct) (auto simp: markerDigits_nondigit)

lemma placeMarker_append:
  "\<not> isDigit c \<Longrightarrow> c \<noteq> CHR ''L'' \<Longrightarrow>
   placeMarker (xs @ c # ys) =
     (case placeMarker xs of None \<Rightarrow> None | Some (n, txt, rest) \<Rightarrow> Some (n, txt, rest @ c # ys))"
proof (cases xs)
  case Nil
  assume "\<not> isDigit c" "c \<noteq> CHR ''L''"
  with Nil show ?thesis by (simp add: markerDigits_nondigit)
next
  case (Cons x xs')
  assume c: "\<not> isDigit c" "c \<noteq> CHR ''L''"
  show ?thesis
  proof (cases "x = CHR ''L''")
    case True
    with Cons c show ?thesis
      by (simp add: markerDigits_append split: option.splits)
  next
    case False
    have "markerDigits ((x # xs') @ c # ys) =
       (case markerDigits (x # xs') of None \<Rightarrow> None
        | Some (n, txt, rest) \<Rightarrow> Some (n, txt, rest @ c # ys))"
      using c(1) by (rule markerDigits_append)
    with False Cons show ?thesis by simp
  qed
qed

lemma scanMarkers_append:
  "\<not> isDigit c \<Longrightarrow> c \<noteq> CHR ''L'' \<Longrightarrow>
   scanMarkers (xs @ c # ys) = scanMarkers xs @ scanMarkers (c # ys)"
proof (induction xs rule: scanMarkers.induct)
  case 1
  show ?case by simp
next
  case (2 x xs)
  show ?case
  proof (cases "x = CHR ''%''")
    case False
    with 2 show ?thesis by simp
  next
    case True
    show ?thesis
    proof (cases "placeMarker xs")
      case None
      with True 2 show ?thesis by (simp add: placeMarker_append)
    next
      case (Some t)
      obtain n tx rest where t: "t = (n, tx, rest)" by (cases t) auto
      with True Some 2 show ?thesis by (simp add: placeMarker_append)
    qed
  qed
qed

lemma fold_min_in: "fold min ns (n::nat) \<in> set (n # ns)"
  by (induction ns arbitrary: n) (auto simp: min_def)

lemma markerNumbers_in:
  "m \<in> set (markerNumbers ps) \<Longrightarrow> \<exists>txt. Marker m txt \<in> set ps"
  by (induction ps rule: markerNumbers.induct) auto

lemma arg_contains:
  assumes "markerNumbers (scanMarkers s) \<noteq> []"
  shows "sublist a (arg s a)"
proof -
  obtain n ns where ns: "markerNumbers (scanMarkers s) = n # ns"
    using assms by (cases "markerNumbers (scanMarkers s)") auto
  define m where "m = fold min ns n"
  have "m \<in> set (markerNumbers (scanMarkers s))"
    unfolding m_def ns by (rule fold_min_in)
  then obtain tx where "Marker m tx \<in> set (scanMarkers s)"
    using markerNumbers_in by blast
  then obtain ps qs where pq: "scanMarkers s = ps @ Marker m tx # qs"
    by (meson split_list)
  have "arg s a = concat (map (fillPiece m a) (scanMarkers s))"
    by (simp add: arg_def ns m_def)
  also have "\<dots> = concat (map (fillPiece m a) ps) @ a @ concat (map (fillPiece m a) qs)"
    by (simp add: pq)
  finally show ?thesis
    by (metis sublist_appendI)
qed

lemma arg_label_template: "arg ''%1(%2)'' devName = devName @ ''(%2)''"
  by (simp add: arg_def isDigit_def digitValue_def)

lemma deviceLabel_plain:
  assumes "CHR ''%'' \<notin> set devName"
  shows "deviceLabel devName dev = devName @ ''('' @ drop 5 dev @ '')''"
proof -
  have "scanMarkers (devName @ ''(%2)'') = map Text devName @ scanMarkers ''(%2)''"
    using assms by (rule scanMarkers_plain)
  also have "scanMarkers ''(%2)'' = [Text CHR ''('', Marker 2 ''%2'', Text CHR '')'']"
    by (simp add: isDigit_def digitValue_def)
  finally have sc: "scanMarkers (devName @ ''(%2)'')
      = map Text devName @ [Text CHR ''('', Marker 2 ''%2'', Text CHR '')'']" .
  have mn: "markerNumbers (scanMarkers (devName @ ''(%2)'')) = [2]"
    unfolding sc by (simp add: markerNumbers_append markerNumbers_Text)
  have "arg (devName @ ''(%2)'') x
      = concat (map (fillPiece 2 x) (scanMarkers (devName @ ''(%2)'')))" for x
    unfolding arg_def Let_def mn by simp
  also have "\<dots> x = devName @ ''('' @ x @ '')''" for x
    unfolding sc by (simp add: fill_Text)
  finally show ?thesis
    by (simp only: deviceLabel_def arg_label_template mid_def)
qed

lemma decrypt_failed_message:
  "sublist (decimal i)
     (arg (arg ''Device %1 Decrypt failed, please see log for more information.(%2)'' device)
        (decimal i))"
proof -
  have a1: "arg ''Device %1 Decrypt failed, please see log for more information.(%2)'' device
      = (''Device '' @ device) @ CHR '' '' # ''Decrypt failed, please see log for more information.(%2)''"
    by (simp add: arg_def isDigit_def digitValue_def)
  have "markerNumbers (scanMarkers (CHR '' '' # ''Decrypt failed, please see log for more information.(%2)'')) = [2]"
    by (simp add: isDigit_def digitValue_def)
  then have "markerNumbers (scanMarkers ((''Device '' @ device) @ CHR '' '' # ''Decrypt failed, please see log for more information.(%2)'')) \<noteq> []"
    by (subst scanMarkers_append) (simp_all add: isDigit_def markerNumbers_append)
  then show ?thesis
    unfolding a1 by (rule arg_contains)
qed

subsection \<open>One step of a progress handler\<close>

lemma onEncryptProgress_new:
  assumes "encryptDialogs s dev = None"
  shows "onEncryptProgress dev devName v s =
     Inr (s\<lparr>encryptDialogs := (encryptDialogs s)(dev \<mapsto> length (dialogs s)),
            dialogs := dialogs s @
              [Some \<lparr>dlgTitle = arg ''Encrypting...%1'' (deviceLabel devName dev),
                     dlgProgress = Some v, dlgVisible = True,
                     destroyedSlots = [RemoveEncryptDialog dev]\<rparr>],
            overrideCursors := overrideCursors s - 1,
            events := events s @ [RestoreOverrideCursor, NewProcessDialog (length (dialogs s)),
                                  UpdateProgress (length (dialogs s)) v,
                                  ShowProcessDialog (length (dialogs s))]\<rparr>)"
  using assms
  by (simp add: onEncryptProgress_def newDialog_def restoreOverrideCursor_def emit_def
        updateProgress_def showProcessDialog_def dialogAt_def Let_def)

lemma onEncryptProgress_update:
  assumes "encryptDialogs s dev = Some p" and "dialogAt s p = Some d"
  shows "onEncryptProgress dev devName v s =
     Inr (s\<lparr>dialogs := (dialogs s)[p := Some (d\<lparr>dlgProgress := Some v, dlgVisible := True\<rparr>)],
            events := events s @ [UpdateProgress p v, ShowProcessDialog p]\<rparr>)"
  using assms
  by (simp add: onEncryptProgress_def emit_def
        updateProgress_def showProcessDialog_def dialogAt_def Let_def split: if_splits)

lemma onEncryptProgress_dangling:
  assumes "encryptDialogs s dev = Some p" and "dialogAt s p = None"
  shows "onEncryptProgress dev devName v s = Inl UseAfterFree"
  using assms
  by (simp add: onEncryptProgress_def updateProgress_def)

lemma onDecryptProgress_new:
  assumes "decryptDialogs s dev = None"
  shows "onDecryptProgress dev devName v s =
     Inr (s\<lparr>decryptDialogs := (decryptDialogs s)(dev \<mapsto> length (dialogs s)),
            dialogs := dialogs s @
              [Some \<lparr>dlgTitle = arg ''Decrypting...%1'' (deviceLabel devName dev),
                     dlgProgress = Some v, dlgVisible = True,
                     destroyedSlots = []\<rparr>],
            overrideCursors := overrideCursors s - 1,
            events := events s @ [RestoreOverrideCursor, NewProcessDialog (length (dialogs s)),
                                  UpdateProgress (length (dialogs s)) v,
                                  ShowProcessDialog (length (dialogs s))]\<rparr>)"
  using assms
  by (simp add: onDecryptProgress_def newDialog_def restoreOverrideCursor_def emit_def
        updateProgress_def showProcessDialog_def dialogAt_def Let_def)

lemma onDecryptProgress_update:
  assumes "decryptDialogs s dev = Some p" and "dialogAt s p = Some d"
  shows "onDecryptProgress dev devName v s =
     Inr (s\<lparr>dialogs := (dialogs s)[p := Some (d\<lparr>dlgProgress := Some v, dlgVisible := True\<rparr>)],
            events := events s @ [UpdateProgress p v, ShowProcessDialog p]\<rparr>)"
  using assms
  by (simp add: onDecryptProgress_def emit_def
        updateProgress_def showProcessDialog_def dialogAt_def Let_def split: if_splits)

lemma onDecryptProgress_dangling:
  assumes "decryptDialogs s dev = Some p" and "dialogAt s p = None"
  shows "onDecryptProgress dev devName v s = Inl UseAfterFree"
  using assms
  by (simp add: onDecryptProgress_def updateProgress_def)

subsection \<open>One step of a result handler\<close>

lemma runSlots_frame:
  "decryptDialogs (fold runSlot sl s) = decryptDialogs s
   \<and> dialogs (fold runSlot sl s) = dialogs s
   \<and> overrideCursors (fold runSlot sl s) = overrideCursors s
   \<and> deferredDeletes (fold runSlot sl s) = deferredDeletes s
   \<and> events (fold runSlot sl s) = events s"
proof (induction sl arbitrary: s)
  case Nil
  show ?case by simp
next
  case (Cons a sl)
  obtain d where "a = RemoveEncryptDialog d" by (cases a)
  with Cons show ?case by simp
qed

lemma restoreOverrideCursor_frame:
  "encryptDialogs (restoreOverrideCursor s) = encryptDialogs s
   \<and> decryptDialogs (restoreOverrideCursor s) = decryptDialogs s
   \<and> dialogs (restoreOverrideCursor s) = dialogs s
   \<and> deferredDeletes (restoreOverrideCursor s) = deferredDeletes s
   \<and> dialogAt (restoreOverrideCursor s) p = dialogAt s p"
  by (simp add: restoreOverrideCursor_def emit_def dialogAt_def)

lemma onEncryptResult_absent:
  assumes "encryptDialogs s dev = None"
  shows "\<exists>t m v. onEncryptResult dev devName code s =
     Inr (s\<lparr>overrideCursors := overrideCursors s - 1,
            events := events s @ [RestoreOverrideCursor, ShowDialog t m v]\<rparr>)"
proof (cases "code = 0")
  case True
  with assms show ?thesis
    by (intro exI [of _ "''Encrypt done''"]
          exI [of _ "arg ''Device %1 has been encrypted'' (deviceLabel devName dev)"]
          exI [of _ kInfo])
       (simp add: onEncryptResult_def restoreOverrideCursor_def emit_def showDialog_def Let_def)
next
  case False
  with assms show ?thesis
    by (intro exI [of _ "''Encrypt failed''"]
          exI [of _ "arg (arg ''Device %1 encrypt failed, please see log for more information.(%2)''
                       (deviceLabel devName dev)) (decimal (sint code))"]
          exI [of _ kError])
       (simp add: onEncryptResult_def restoreOverrideCursor_def emit_def showDialog_def Let_def)
qed

lemma destroyDialog_live:
  assumes "dialogAt s p = Some d"
  shows "\<exists>s1. destroyDialog p s = Inr s1
     \<and> encryptDialogs s1 = encryptDialogs (fold runSlot (destroyedSlots d) s)
     \<and> decryptDialogs s1 = decryptDialogs s
     \<and> dialogs s1 = (dialogs s)[p := None]
     \<and> overrideCursors s1 = overrideCursors s
     \<and> deferredDeletes s1 = deferredDeletes s
     \<and> events s1 = events s @ [DeleteDialog p]"
proof -
  have "encryptDialogs (fold runSlot sl (s\<lparr>dialogs := ds\<rparr>)) = encryptDialogs (fold runSlot sl s)"
    for sl ds
  proof (induction sl arbitrary: s)
    case Nil
    show ?case by simp
  next
    case (Cons a sl)
    obtain x where a: "a = RemoveEncryptDialog x" by (cases a)
    have "encryptDialogs (fold runSlot sl ((runSlot a s)\<lparr>dialogs := ds\<rparr>))
        = encryptDialogs (fold runSlot sl (runSlot a s))"
      by (rule Cons.IH)
    moreover have "runSlot a (s\<lparr>dialogs := ds\<rparr>) = (runSlot a s)\<lparr>dialogs := ds\<rparr>"
      by (simp add: a)
    ultimately show ?case by simp
  qed
  with assms show ?thesis
    by (simp add: destroyDialog_def emit_def runSlots_frame)
qed

lemma onEncryptResult_live:
  assumes "encryptDialogs s dev = Some p" and "dialogAt s p = Some d"
  shows "\<exists>s1 t m v. onEncryptResult dev devName code s = Inr s1
     \<and> encryptDialogs s1 dev = None
     \<and> decryptDialogs s1 = decryptDialogs s
     \<and> dialogs s1 = (dialogs s)[p := None]
     \<and> overrideCursors s1 = overrideCursors s - 1
     \<and> deferredDeletes s1 = deferredDeletes s
     \<and> events s1 = events s @ [RestoreOverrideCursor, DeleteDialog p, ShowDialog t m v]"
proof -
  define s0 where "s0 = restoreOverrideCursor s"
  have live0: "dialogAt s0 p = Some d" and reg0: "encryptDialogs s0 dev = Some p"
    using assms by (simp_all add: s0_def restoreOverrideCursor_frame)
  obtain s2 where s2: "destroyDialog p s0 = Inr s2"
    and f2: "decryptDialogs s2 = decryptDialogs s0" "dialogs s2 = (dialogs s0)[p := None]"
      "overrideCursors s2 = overrideCursors s0" "deferredDeletes s2 = deferredDeletes s0"
      "events s2 = events s0 @ [DeleteDialog p]"
    using destroyDialog_live [OF live0] by blast
  define s3 where "s3 = s2\<lparr>encryptDialogs := (encryptDialogs s2)(dev := None)\<rparr>"
  have "\<exists>t m v. onEncryptResult dev devName code s = Inr (showDialog t m v s3)"
    using reg0 s2 by (auto simp: onEncryptResult_def Let_def s0_def [symmetric] s3_def)
  then obtain t m v where r: "onEncryptResult dev devName code s = Inr (showDialog t m v s3)"
    by blast
  have e0: "events s0 = events s @ [RestoreOverrideCursor]"
    and c0: "overrideCursors s0 = overrideCursors s - 1"
    by (simp_all add: s0_def restoreOverrideCursor_def emit_def)
  show ?thesis
    using r f2 e0 c0
    by (simp add: s3_def showDialog_def emit_def s0_def restoreOverrideCursor_frame)
qed

lemma onEncryptResult_dangling:
  assumes "encryptDialogs s dev = Some p" and "dialogAt s p = None"
  shows "onEncryptResult dev devName code s = Inl UseAfterFree"
  using assms
  by (simp add: onEncryptResult_def restoreOverrideCursor_frame Let_def destroyDialog_def)

lemma onDecryptResult_absent:
  assumes "decryptDialogs s dev = None"
  shows "onDecryptResult g choice dev devName aux code s =
     Inr (if code = - kRebootRequired g
          then showRebootOnDecrypted choice dev devName (restoreOverrideCursor s)
          else showDecryptError g dev devName code (restoreOverrideCursor s))"
  using assms
  by (simp add: onDecryptResult_def restoreOverrideCursor_def emit_def Let_def)

lemma onDecryptResult_live:
  assumes "decryptDialogs s dev = Some p" and "dialogAt s p = Some d"
  shows "\<exists>s3. onDecryptResult g choice dev devName aux code s =
       Inr (if code = - kRebootRequired g
            then showRebootOnDecrypted choice dev devName s3
            else showDecryptError g dev devName code s3)
     \<and> encryptDialogs s3 = encryptDialogs s
     \<and> decryptDialogs s3 = (decryptDialogs s)(dev := None)
     \<and> dialogs s3 = dialogs s
     \<and> overrideCursors s3 = overrideCursors s - 1
     \<and> deferredDeletes s3 = deferredDeletes s @ [p]
     \<and> events s3 = events s @ [RestoreOverrideCursor, DeleteLater p]"
proof -
  define s1 where "s1 = restoreOverrideCursor s"
  define s2 where "s2 = emit (DeleteLater p) (s1\<lparr>deferredDeletes := deferredDeletes s1 @ [p]\<rparr>)"
  define s3 where "s3 = s2\<lparr>decryptDialogs := (decryptDialogs s2)(dev := None)\<rparr>"
  have live1: "dialogAt s1 p = Some d" and reg1: "decryptDialogs s1 dev = Some p"
    using assms by (simp_all add: s1_def restoreOverrideCursor_frame)
  have dl: "deleteLater p s1 = Inr s2"
    using live1 by (simp add: deleteLater_def s2_def)
  have r: "onDecryptResult g choice dev devName aux code s =
       Inr (if code = - kRebootRequired g
            then showRebootOnDecrypted choice dev devName s3
            else showDecryptError g dev devName code s3)"
    using reg1 dl by (simp add: onDecryptResult_def Let_def s1_def [symmetric] s3_def)
  have "encryptDialogs s3 = encryptDialogs s"
    "decryptDialogs s3 = (decryptDialogs s)(dev := None)"
    "dialogs s3 = dialogs s"
    "overrideCursors s3 = overrideCursors s - 1"
    "deferredDeletes s3 = deferredDeletes s @ [p]"
    "events s3 = events s @ [RestoreOverrideCursor, DeleteLater p]"
    by (simp_all add: s3_def s2_def s1_def emit_def restoreOverrideCursor_def)
  with r show ?thesis by blast
qed

lemma onDecryptResult_dangling:
  assumes "decryptDialogs s dev = Some p" and "dialogAt s p = None"
  shows "onDecryptResult g choice dev devName aux code s = Inl UseAfterFree"
  using assms
  by (simp add: onDecryptResult_def restoreOverrideCursor_frame Let_def deleteLater_def)

lemma showRebootOnDecrypted_fields:
  "encryptDialogs (showRebootOnDecrypted choice dev devName s) = encryptDialogs s
   \<and> decryptDialogs (showRebootOnDecrypted choice dev devName s) = decryptDialogs s
   \<and> dialogs (showRebootOnDecrypted choice dev devName s) = dialogs s
   \<and> overrideCursors (showRebootOnDecrypted choice dev devName s) = overrideCursors s
   \<and> deferredDeletes (showRebootOnDecrypted choice dev devName s) = deferredDeletes s
   \<and> events (showRebootOnDecrypted choice dev devName s) =
       events s @ RebootDialog ''Decrypt device''
                    (arg ''Please reboot to decrypt device %1.'' (deviceLabel devName dev))
                  # (if choice = 1 then [RequestReboot] else [])"
  by (simp add: showRebootOnDecrypted_def emit_def requestReboot_def Let_def)

lemma showDecryptError_fields:
  "encryptDialogs (showDecryptError g dev devName code s) = encryptDialogs s
   \<and> decryptDialogs (showDecryptError g dev devName code s) = decryptDialogs s
   \<and> dialogs (showDecryptError g dev devName code s) = dialogs s
   \<and> overrideCursors (showDecryptError g dev devName code s) = overrideCursors s
   \<and> deferredDeletes (showDecryptError g dev devName code s) = deferredDeletes s
   \<and> (\<exists>t m v. events (showDecryptError g dev devName code s) = events s @ [ShowDialog t m v])"
  by (simp add: showDecryptError_def emit_def showDialog_def Let_def split: prod.splits)

subsection \<open>Runs of progress notifications\<close>

lemma encryptingState_reached:
  "onEncryptProgress ''/dev/sda1'' ''Data'' (1 / 4) initialHandler
     = Inr (encryptingState\<lparr>overrideCursors := 0\<rparr>)"
  by (simp add: onEncryptProgress_new initialHandler_def encryptingState_def
        deviceLabel_plain arg_def isDigit_def digitValue_def)

lemma decryptingState_reached:
  "onDecryptProgress ''/dev/sda1'' ''Data'' (1 / 4) initialHandler
     = Inr (decryptingState\<lparr>overrideCursors := 0\<rparr>)"
  by (simp add: onDecryptProgress_new initialHandler_def decryptingState_def
        deviceLabel_plain arg_def isDigit_def digitValue_def)

lemma encryptProgressRun_registered:
  assumes "encryptDialogs s dev = Some p" and "dialogAt s p = Some d"
  shows "\<exists>s' d'. encryptProgressRun dev devName vs s = Inr s'
     \<and> encryptDialogs s' = encryptDialogs s
     \<and> decryptDialogs s' = decryptDialogs s
     \<and> length (dialogs s') = length (dialogs s)
     \<and> dialogAt s' p = Some d'
     \<and> dlgProgress d' = (if vs = [] then dlgProgress d else Some (last vs))
     \<and> (vs \<noteq> [] \<longrightarrow> dlgVisible d')"
  using assms
proof (induction vs arbitrary: s d)
  case Nil
  then show ?case by simp
next
  case (Cons v vs)
  define s1 where "s1 = s\<lparr>dialogs := (dialogs s)[p := Some (d\<lparr>dlgProgress := Some v, dlgVisible := True\<rparr>)],
                          events := events s @ [UpdateProgress p v, ShowProcessDialog p]\<rparr>"
  have step: "onEncryptProgress dev devName v s = Inr s1"
    unfolding s1_def using Cons.prems by (rule onEncryptProgress_update)
  have p: "p < length (dialogs s)"
    using Cons.prems(2) by (simp add: dialogAt_def split: if_splits)
  have reg1: "encryptDialogs s1 dev = Some p"
    using Cons.prems(1) by (simp add: s1_def)
  have live1: "dialogAt s1 p = Some (d\<lparr>dlgProgress := Some v, dlgVisible := True\<rparr>)"
    using p by (simp add: s1_def dialogAt_def)
  obtain s' d' where r: "encryptProgressRun dev devName vs s1 = Inr s'"
      "encryptDialogs s' = encryptDialogs s1" "decryptDialogs s' = decryptDialogs s1"
      "length (dialogs s') = length (dialogs s1)" "dialogAt s' p = Some d'"
      "dlgProgress d' = (if vs = [] then dlgProgress (d\<lparr>dlgProgress := Some v, dlgVisible := True\<rparr>)
                         else Some (last vs))"
      "vs \<noteq> [] \<longrightarrow> dlgVisible d'"
    using Cons.IH [OF reg1 live1] by blast
  have v: "dlgVisible d'"
  proof (cases vs)
    case Nil
    with r(1) have "s' = s1" by simp
    with r(5) live1 show ?thesis by auto
  next
    case (Cons a list)
    with r(7) show ?thesis by simp
  qed
  show ?case
    using step r v by (auto simp: s1_def)
qed

lemma decryptProgressRun_registered:
  assumes "decryptDialogs s dev = Some p" and "dialogAt s p = Some d"
  shows "\<exists>s' d'. decryptProgressRun dev devName vs s = Inr s'
     \<and> encryptDialogs s' = encryptDialogs s
     \<and> decryptDialogs s' = decryptDialogs s
     \<and> length (dialogs s') = length (dialogs s)
     \<and> dialogAt s' p = Some d'
     \<and> dlgProgress d' = (if vs = [] then dlgProgress d else Some (last vs))
     \<and> (vs \<noteq> [] \<longrightarrow> dlgVisible d')"
  using assms
proof (induction vs arbitrary: s d)
  case Nil
  then show ?case by simp
next
  case (Cons v vs)
  define s1 where "s1 = s\<lparr>dialogs := (dialogs s)[p := Some (d\<lparr>dlgProgress := Some v, dlgVisible := True\<rparr>)],
                          events := events s @ [UpdateProgress p v, ShowProcessDialog p]\<rparr>"
  have step: "onDecryptProgress dev devName v s = Inr s1"
    unfolding s1_def using Cons.prems by (rule onDecryptProgress_update)
  have p: "p < length (dialogs s)"
    using Cons.prems(2) by (simp add: dialogAt_def split: if_splits)
  have reg1: "decryptDialogs s1 dev = Some p"
    using Cons.prems(1) by (simp add: s1_def)
  have live1: "dialogAt s1 p = Some (d\<lparr>dlgProgress := Some v, dlgVisible := True\<rparr>)"
    using p by (simp add: s1_def dialogAt_def)
  obtain s' d' where r: "decryptProgressRun dev devName vs s1 = Inr s'"
      "encryptDialogs s' = encryptDialogs s1" "decryptDialogs s' = decryptDialogs s1"
      "length (dialogs s') = length (dialogs s1)" "dialogAt s' p = Some d'"
      "dlgProgress d' = (if vs = [] then dlgProgress (d\<lparr>dlgProgress := Some v, dlgVisible := True\<rparr>)
                         else Some (last vs))"
      "vs \<noteq> [] \<longrightarrow> dlgVisible d'"
    using Cons.IH [OF reg1 live1] by blast
  have v: "dlgVisible d'"
  proof (cases vs)
    case Nil
    with r(1) have "s' = s1" by simp
    with r(5) live1 show ?thesis by auto
  next
    case (Cons a list)
    with r(7) show ?thesis by simp
  qed
  show ?case
    using step r v by (auto simp: s1_def)
qed

lemma onEncryptProgress_keeps_entries:
  assumes "encryptDialogs s dev = Some p" and "onEncryptProgress dev2 devName2 v s = Inr s2"
  shows "encryptDialogs s2 dev = Some p \<and> decryptDialogs s2 = decryptDialogs s"
proof (cases "encryptDialogs s dev2")
  case None
  with assms(1) have "dev2 \<noteq> dev" by auto
  with assms show ?thesis by (auto simp: onEncryptProgress_new [OF None])
next
  case (Some q)
  show ?thesis
  proof (cases "dialogAt s q")
    case None
    with assms Some show ?thesis by (simp add: onEncryptProgress_dangling)
  next
    case d: (Some d)
    with assms show ?thesis by (auto simp: onEncryptProgress_update [OF Some d])
  qed
qed

lemma onDecryptProgress_keeps_entries:
  assumes "decryptDialogs s dev = Some p" and "onDecryptProgress dev2 devName2 v s = Inr s2"
  shows "decryptDialogs s2 dev = Some p \<and> encryptDialogs s2 = encryptDialogs s"
proof (cases "decryptDialogs s dev2")
  case None
  with assms(1) have "dev2 \<noteq> dev" by auto
  with assms show ?thesis by (auto simp: onDecryptProgress_new [OF None])
next
  case (Some q)
  show ?thesis
  proof (cases "dialogAt s q")
    case None
    with assms Some show ?thesis by (simp add: onDecryptProgress_dangling)
  next
    case d: (Some d)
    with assms show ?thesis by (auto simp: onDecryptProgress_update [OF Some d])
  qed
qed

lemma encryptProgressRun_fresh:
  assumes "encryptDialogs s dev = None"
  shows "\<exists>s' d. encryptProgressRun dev devName (v # vs) s = Inr s'
     \<and> encryptDialogs s' = (encryptDialogs s)(dev \<mapsto> length (dialogs s))
     \<and> decryptDialogs s' = decryptDialogs s
     \<and> length (dialogs s') = Suc (length (dialogs s))
     \<and> dialogAt s' (length (dialogs s)) = Some d
     \<and> dlgProgress d = Some (last (v # vs)) \<and> dlgVisible d"
proof -
  define p where "p = length (dialogs s)"
  define d1 where "d1 = \<lparr>dlgTitle = arg ''Encrypting...%1'' (deviceLabel devName dev),
                     dlgProgress = Some v, dlgVisible = True,
                     destroyedSlots = [RemoveEncryptDialog dev]\<rparr>"
  obtain s1 where step: "onEncryptProgress dev devName v s = Inr s1"
    and f1: "encryptDialogs s1 = (encryptDialogs s)(dev \<mapsto> p)"
      "decryptDialogs s1 = decryptDialogs s" "dialogs s1 = dialogs s @ [Some d1]"
    by (simp add: onEncryptProgress_new [OF assms] p_def d1_def)
  have reg1: "encryptDialogs s1 dev = Some p" by (simp add: f1)
  have live1: "dialogAt s1 p = Some d1" by (simp add: dialogAt_def f1 p_def)
  obtain s' d' where r: "encryptProgressRun dev devName vs s1 = Inr s'"
      "encryptDialogs s' = encryptDialogs s1" "decryptDialogs s' = decryptDialogs s1"
      "length (dialogs s') = length (dialogs s1)" "dialogAt s' p = Some d'"
      "dlgProgress d' = (if vs = [] then dlgProgress d1 else Some (last vs))"
      "vs \<noteq> [] \<longrightarrow> dlgVisible d'"
    using encryptProgressRun_registered [OF reg1 live1] by blast
  have v: "dlgVisible d'"
  proof (cases vs)
    case Nil
    with r(1) have "s' = s1" by simp
    with r(5) live1 show ?thesis by (auto simp: d1_def)
  next
    case (Cons a list)
    with r(7) show ?thesis by simp
  qed
  have pr: "dlgProgress d' = Some (last (v # vs))"
    using r(6) by (simp add: d1_def)
  show ?thesis
    using step r f1 v pr by (auto simp: p_def)
qed

lemma decryptProgressRun_fresh:
  assumes "decryptDialogs s dev = None"
  shows "\<exists>s' d. decryptProgressRun dev devName (v # vs) s = Inr s'
     \<and> decryptDialogs s' = (decryptDialogs s)(dev \<mapsto> length (dialogs s))
     \<and> encryptDialogs s' = encryptDialogs s
     \<and> length (dialogs s') = Suc (length (dialogs s))
     \<and> dialogAt s' (length (dialogs s)) = Some d
     \<and> dlgProgress d = Some (last (v # vs)) \<and> dlgVisible d"
proof -
  define p where "p = length (dialogs s)"
  define d1 where "d1 = \<lparr>dlgTitle = arg ''Decrypting...%1'' (deviceLabel devName dev),
                     dlgProgress = Some v, dlgVisible = True,
                     destroyedSlots = []\<rparr>"
  obtain s1 where step: "onDecryptProgress dev devName v s = Inr s1"
    and f1: "decryptDialogs s1 = (decryptDialogs s)(dev \<mapsto> p)"
      "encryptDialogs s1 = encryptDialogs s" "dialogs s1 = dialogs s @ [Some d1]"
    by (simp add: onDecryptProgress_new [OF assms] p_def d1_def)
  have reg1: "decryptDialogs s1 dev = Some p" by (simp add: f1)
  have live1: "dialogAt s1 p = Some d1" by (simp add: dialogAt_def f1 p_def)
  obtain s' d' where r: "decryptProgressRun dev devName vs s1 = Inr s'"
      "encryptDialogs s' = encryptDialogs s1" "decryptDialogs s' = decryptDialogs s1"
      "length (dialogs s') = length (dialogs s1)" "dialogAt s' p = Some d'"
      "dlgProgress d' = (if vs = [] then dlgProgress d1 else Some (last vs))"
      "vs \<noteq> [] \<longrightarrow> dlgVisible d'"
    using decryptProgressRun_registered [OF reg1 live1] by blast
  have v: "dlgVisible d'"
  proof (cases vs)
    case Nil
    with r(1) have "s' = s1" by simp
    with r(5) live1 show ?thesis by (auto simp: d1_def)
  next
    case (Cons a list)
    with r(7) show ?thesis by simp
  qed
  have pr: "dlgProgress d' = Some (last (v # vs))"
    using r(6) by (simp add: d1_def)
  show ?thesis
    using step r f1 v pr by (auto simp: p_def)
qed

subsection \<open>Destruction of a progress dialog\<close>

lemma encrypt_destroyed_removes_entry:
  assumes "encryptDialogs s dev = None"
  shows "\<exists>s1 s2. onEncryptProgress dev devName v s = Inr s1
     \<and> encryptDialogs s1 dev = Some (length (dialogs s))
     \<and> destroyDialog (length (dialogs s)) s1 = Inr s2
     \<and> encryptDialogs s2 = encryptDialogs s"
proof -
  define p where "p = length (dialogs s)"
  define d1 where "d1 = \<lparr>dlgTitle = arg ''Encrypting...%1'' (deviceLabel devName dev),
                     dlgProgress = Some v, dlgVisible = True,
                     destroyedSlots = [RemoveEncryptDialog dev]\<rparr>"
  obtain s1 where step: "onEncryptProgress dev devName v s = Inr s1"
    and f1: "encryptDialogs s1 = (encryptDialogs s)(dev \<mapsto> p)" "dialogs s1 = dialogs s @ [Some d1]"
    by (simp add: onEncryptProgress_new [OF assms] p_def d1_def)
  have live1: "dialogAt s1 p = Some d1" by (simp add: dialogAt_def f1 p_def)
  obtain s2 where s2: "destroyDialog p s1 = Inr s2"
    and f2: "encryptDialogs s2 = encryptDialogs (fold runSlot (destroyedSlots d1) s1)"
    using destroyDialog_live [OF live1] by blast
  have "encryptDialogs s2 = encryptDialogs s"
    using assms by (auto simp: f2 d1_def f1)
  with step s2 f1 show ?thesis by (auto simp: p_def)
qed

lemma decrypt_destroyed_keeps_entry:
  assumes "decryptDialogs s dev = None"
  shows "\<exists>s1 s2. onDecryptProgress dev devName v s = Inr s1
     \<and> destroyDialog (length (dialogs s)) s1 = Inr s2
     \<and> decryptDialogs s2 dev = Some (length (dialogs s))
     \<and> dialogAt s2 (length (dialogs s)) = None
     \<and> onDecryptProgress dev devName w s2 = Inl UseAfterFree"
proof -
  define p where "p = length (dialogs s)"
  define d1 where "d1 = \<lparr>dlgTitle = arg ''Decrypting...%1'' (deviceLabel devName dev),
                     dlgProgress = Some v, dlgVisible = True,
                     destroyedSlots = []\<rparr>"
  obtain s1 where step: "onDecryptProgress dev devName v s = Inr s1"
    and f1: "decryptDialogs s1 = (decryptDialogs s)(dev \<mapsto> p)" "dialogs s1 = dialogs s @ [Some d1]"
    by (simp add: onDecryptProgress_new [OF assms] p_def d1_def)
  have live1: "dialogAt s1 p = Some d1" by (simp add: dialogAt_def f1 p_def)
  obtain s2 where s2: "destroyDialog p s1 = Inr s2"
    and f2: "decryptDialogs s2 = decryptDialogs s1" "dialogs s2 = (dialogs s1)[p := None]"
    using destroyDialog_live [OF live1] by blast
  have reg2: "decryptDialogs s2 dev = Some p" by (simp add: f2 f1)
  have dead2: "dialogAt s2 p = None" by (simp add: dialogAt_def f2 f1 p_def)
  have "onDecryptProgress dev devName w s2 = Inl UseAfterFree"
    using reg2 dead2 by (rule onDecryptProgress_dangling)
  with step s2 reg2 dead2 show ?thesis by (auto simp: p_def)
qed

subsection \<open>Sequences of progress notifications for any devices\<close>

lemma encryptProgressSeq_count:
  assumes "\<forall>n \<in> set ns. entryLive s (encryptDialogs s (fst n))"
  shows "\<exists>s'. encryptProgressSeq ns s = Inr s'
     \<and> length (dialogs s') = length (dialogs s) + card (fst ` set ns - dom (encryptDialogs s))
     \<and> dom (encryptDialogs s') = dom (encryptDialogs s) \<union> fst ` set ns
     \<and> (\<forall>d p. encryptDialogs s d = Some p \<longrightarrow> encryptDialogs s' d = Some p)"
  using assms
proof (induction ns arbitrary: s)
  case Nil
  show ?case by simp
next
  case (Cons n ns)
  obtain dev devName v where n: "n = (dev, devName, v)" by (cases n) auto
  show ?case
  proof (cases "encryptDialogs s dev")
    case None
    define p where "p = length (dialogs s)"
    define d1 where "d1 = \<lparr>dlgTitle = arg ''Encrypting...%1'' (deviceLabel devName dev),
                     dlgProgress = Some v, dlgVisible = True,
                     destroyedSlots = [RemoveEncryptDialog dev]\<rparr>"
    obtain s1 where step: "onEncryptProgress dev devName v s = Inr s1"
      and f1: "encryptDialogs s1 = (encryptDialogs s)(dev \<mapsto> p)"
        "dialogs s1 = dialogs s @ [Some d1]"
      by (simp add: onEncryptProgress_new [OF None] p_def d1_def)
    have live1: "\<forall>m \<in> set ns. entryLive s1 (encryptDialogs s1 (fst m))"
    proof
      fix m assume m: "m \<in> set ns"
      show "entryLive s1 (encryptDialogs s1 (fst m))"
      proof (cases "fst m = dev")
        case True
        then show ?thesis by (simp add: entryLive_def f1 dialogAt_def p_def)
      next
        case False
        from Cons.prems m have "entryLive s (encryptDialogs s (fst m))" by simp
        with False show ?thesis
          by (auto simp: entryLive_def f1 dialogAt_def nth_append split: option.splits if_splits)
      qed
    qed
    from Cons.IH [OF live1]
    obtain s' where r: "encryptProgressSeq ns s1 = Inr s'"
      "length (dialogs s') = length (dialogs s1) + card (fst ` set ns - dom (encryptDialogs s1))"
      "dom (encryptDialogs s') = dom (encryptDialogs s1) \<union> fst ` set ns"
      "\<forall>d p. encryptDialogs s1 d = Some p \<longrightarrow> encryptDialogs s' d = Some p"
      by blast
    have dev: "dev \<notin> dom (encryptDialogs s)" using None by auto
    have "fst ` set (n # ns) - dom (encryptDialogs s)
        = insert dev (fst ` set ns - dom (encryptDialogs s1))"
      using dev by (auto simp: n f1)
    moreover have "dev \<notin> fst ` set ns - dom (encryptDialogs s1)"
      by (simp add: f1)
    ultimately have c: "card (fst ` set (n # ns) - dom (encryptDialogs s))
        = Suc (card (fst ` set ns - dom (encryptDialogs s1)))"
      by simp
    have keep: "\<forall>d q. encryptDialogs s d = Some q \<longrightarrow> encryptDialogs s' d = Some q"
    proof (intro allI impI)
      fix d q assume q: "encryptDialogs s d = Some q"
      with None have "d \<noteq> dev" by auto
      with q have "encryptDialogs s1 d = Some q" by (simp add: f1)
      with r(4) show "encryptDialogs s' d = Some q" by blast
    qed
    have "encryptProgressSeq (n # ns) s = Inr s'"
      using step r(1) by (simp add: n)
    moreover have "length (dialogs s') = length (dialogs s) + card (fst ` set (n # ns) - dom (encryptDialogs s))"
      using r(2) c by (simp add: f1)
    moreover have "dom (encryptDialogs s') = dom (encryptDialogs s) \<union> fst ` set (n # ns)"
      using r(3) by (auto simp: f1 n)
    ultimately show ?thesis using keep by blast
  next
    case (Some p)
    from Cons.prems have "entryLive s (encryptDialogs s dev)" by (simp add: n)
    with Some obtain d where d: "dialogAt s p = Some d" by (auto simp: entryLive_def)
    define s1 where "s1 = s\<lparr>dialogs := (dialogs s)[p := Some (d\<lparr>dlgProgress := Some v, dlgVisible := True\<rparr>)],
                          events := events s @ [UpdateProgress p v, ShowProcessDialog p]\<rparr>"
    have step: "onEncryptProgress dev devName v s = Inr s1"
      unfolding s1_def using Some d by (rule onEncryptProgress_update)
    have f1: "encryptDialogs s1 = encryptDialogs s" "length (dialogs s1) = length (dialogs s)"
      by (simp_all add: s1_def)
    have alive: "dialogAt s q \<noteq> None \<Longrightarrow> dialogAt s1 q \<noteq> None" for q
      by (cases "q = p") (auto simp: s1_def dialogAt_def split: if_splits)
    have live1: "\<forall>m \<in> set ns. entryLive s1 (encryptDialogs s1 (fst m))"
    proof
      fix m assume "m \<in> set ns"
      with Cons.prems have "entryLive s (encryptDialogs s (fst m))" by simp
      then show "entryLive s1 (encryptDialogs s1 (fst m))"
        using alive by (auto simp: entryLive_def f1 split: option.splits)
    qed
    from Cons.IH [OF live1]
    obtain s' where r: "encryptProgressSeq ns s1 = Inr s'"
      "length (dialogs s') = length (dialogs s1) + card (fst ` set ns - dom (encryptDialogs s1))"
      "dom (encryptDialogs s') = dom (encryptDialogs s1) \<union> fst ` set ns"
      "\<forall>d p. encryptDialogs s1 d = Some p \<longrightarrow> encryptDialogs s' d = Some p"
      by blast
    have dev: "dev \<in> dom (encryptDialogs s)" using Some by auto
    then have "fst ` set (n # ns) - dom (encryptDialogs s) = fst ` set ns - dom (encryptDialogs s)"
      by (auto simp: n)
    then have c: "card (fst ` set (n # ns) - dom (encryptDialogs s))
        = card (fst ` set ns - dom (encryptDialogs s1))"
      by (simp add: f1)
    have "encryptProgressSeq (n # ns) s = Inr s'"
      using step r(1) by (simp add: n)
    moreover have "length (dialogs s') = length (dialogs s) + card (fst ` set (n # ns) - dom (encryptDialogs s))"
      using r(2) c by (simp add: f1)
    moreover have "dom (encryptDialogs s') = dom (encryptDialogs s) \<union> fst ` set (n # ns)"
      using r(3) dev by (auto simp: f1 n)
    ultimately show ?thesis using r(4) by (auto simp: f1)
  qed
qed

lemma decryptProgressSeq_count:
  assumes "\<forall>n \<in> set ns. entryLive s (decryptDialogs s (fst n))"
  shows "\<exists>s'. decryptProgressSeq ns s = Inr s'
     \<and> length (dialogs s') = length (dialogs s) + card (fst ` set ns - dom (decryptDialogs s))
     \<and> dom (decryptDialogs s') = dom (decryptDialogs s) \<union> fst ` set ns
     \<and> (\<forall>d p. decryptDialogs s d = Some p \<longrightarrow> decryptDialogs s' d = Some p)"
  using assms
proof (induction ns arbitrary: s)
  case Nil
  show ?case by simp
next
  case (Cons n ns)
  obtain dev devName v where n: "n = (dev, devName, v)" by (cases n) auto
  show ?case
  proof (cases "decryptDialogs s dev")
    case None
    define p where "p = length (dialogs s)"
    define d1 where "d1 = \<lparr>dlgTitle = arg ''Decrypting...%1'' (deviceLabel devName dev),
                     dlgProgress = Some v, dlgVisible = True,
                     destroyedSlots = []\<rparr>"
    obtain s1 where step: "onDecryptProgress dev devName v s = Inr s1"
      and f1: "decryptDialogs s1 = (decryptDialogs s)(dev \<mapsto> p)"
        "dialogs s1 = dialogs s @ [Some d1]"
      by (simp add: onDecryptProgress_new [OF None] p_def d1_def)
    have live1: "\<forall>m \<in> set ns. entryLive s1 (decryptDialogs s1 (fst m))"
    proof
      fix m assume m: "m \<in> set ns"
      show "entryLive s1 (decryptDialogs s1 (fst m))"
      proof (cases "fst m = dev")
        case True
        then show ?thesis by (simp add: entryLive_def f1 dialogAt_def p_def)
      next
        case False
        from Cons.prems m have "entryLive s (decryptDialogs s (fst m))" by simp
        with False show ?thesis
          by (auto simp: entryLive_def f1 dialogAt_def nth_append split: option.splits if_splits)
      qed
    qed
    from Cons.IH [OF live1]
    obtain s' where r: "decryptProgressSeq ns s1 = Inr s'"
      "length (dialogs s') = length (dialogs s1) + card (fst ` set ns - dom (decryptDialogs s1))"
      "dom (decryptDialogs s') = dom (decryptDialogs s1) \<union> fst ` set ns"
      "\<forall>d p. decryptDialogs s1 d = Some p \<longrightarrow> decryptDialogs s' d = Some p"
      by blast
    have dev: "dev \<notin> dom (decryptDialogs s)" using None by auto
    have "fst ` set (n # ns) - dom (decryptDialogs s)
        = insert dev (fst ` set ns - dom (decryptDialogs s1))"
      using dev by (auto simp: n f1)
    moreover have "dev \<notin> fst ` set ns - dom (decryptDialogs s1)"
      by (simp add: f1)
    ultimately have c: "card (fst ` set (n # ns) - dom (decryptDialogs s))
        = Suc (card (fst ` set ns - dom (decryptDialogs s1)))"
      by simp
    have keep: "\<forall>d q. decryptDialogs s d = Some q \<longrightarrow> decryptDialogs s' d = Some q"
    proof (intro allI impI)
      fix d q assume q: "decryptDialogs s d = Some q"
      with None have "d \<noteq> dev" by auto
      with q have "decryptDialogs s1 d = Some q" by (simp add: f1)
      with r(4) show "decryptDialogs s' d = Some q" by blast
    qed
    have "decryptProgressSeq (n # ns) s = Inr s'"
      using step r(1) by (simp add: n)
    moreover have "length (dialogs s') = length (dialogs s) + card (fst ` set (n # ns) - dom (decryptDialogs s))"
      using r(2) c by (simp add: f1)
    moreover have "dom (decryptDialogs s') = dom (decryptDialogs s) \<union> fst ` set (n # ns)"
      using r(3) by (auto simp: f1 n)
    ultimately show ?thesis using keep by blast
  next
    case (Some p)
    from Cons.prems have "entryLive s (decryptDialogs s dev)" by (simp add: n)
    with Some obtain d where d: "dialogAt s p = Some d" by (auto simp: entryLive_def)
    define s1 where "s1 = s\<lparr>dialogs := (dialogs s)[p := Some (d\<lparr>dlgProgress := Some v, dlgVisible := True\<rparr>)],
                          events := events s @ [UpdateProgress p v, ShowProcessDialog p]\<rparr>"
    have step: "onDecryptProgress dev devName v s = Inr s1"
      unfolding s1_def using Some d by (rule onDecryptProgress_update)
    have f1: "decryptDialogs s1 = decryptDialogs s" "length (dialogs s1) = length (dialogs s)"
      by (simp_all add: s1_def)
    have alive: "dialogAt s q \<noteq> None \<Longrightarrow> dialogAt s1 q \<noteq> None" for q
      by (cases "q = p") (auto simp: s1_def dialogAt_def split: if_splits)
    have live1: "\<forall>m \<in> set ns. entryLive s1 (decryptDialogs s1 (fst m))"
    proof
      fix m assume "m \<in> set ns"
      with Cons.prems have "entryLive s (decryptDialogs s (fst m))" by simp
      then show "entryLive s1 (decryptDialogs s1 (fst m))"
        using alive by (auto simp: entryLive_def f1 split: option.splits)
    qed
    from Cons.IH [OF live1]
    obtain s' where r: "decryptProgressSeq ns s1 = Inr s'"
      "length (dialogs s') = length (dialogs s1) + card (fst ` set ns - dom (decryptDialogs s1))"
      "dom (decryptDialogs s') = dom (decryptDialogs s1) \<union> fst ` set ns"
      "\<forall>d p. decryptDialogs s1 d = Some p \<longrightarrow> decryptDialogs s' d = Some p"
      by blast
    have dev: "dev \<in> dom (decryptDialogs s)" using Some by auto
    then have "fst ` set (n # ns) - dom (decryptDialogs s) = fst ` set ns - dom (decryptDialogs s)"
      by (auto simp: n)
    then have c: "card (fst ` set (n # ns) - dom (decryptDialogs s))
        = card (fst ` set ns - dom (decryptDialogs s1))"
      by (simp add: f1)
    have "decryptProgressSeq (n # ns) s = Inr s'"
      using step r(1) by (simp add: n)
    moreover have "length (dialogs s') = length (dialogs s) + card (fst ` set (n # ns) - dom (decryptDialogs s))"
      using r(2) c by (simp add: f1)
    moreover have "dom (decryptDialogs s') = dom (decryptDialogs s) \<union> fst ` set (n # ns)"
      using r(3) dev by (auto simp: f1 n)
    ultimately show ?thesis using r(4) by (auto simp: f1)
  qed
qed

lemma decryptDestroyedState_reached:
  "destroyDialog 0 decryptingState = Inr decryptDestroyedState"
  by (simp add: destroyDialog_def dialogAt_def decryptingState_def decryptDestroyedState_def
        emit_def)

subsection \<open>The decrypt outcome dialog\<close>

lemma neg_code_eq: "(- c = k) = (c = - k)" for c k :: cint
  by auto

lemma showDecryptError_events:
  "events (showDecryptError g dev devName code s) =
     events s @ newEvents s (showDecryptError g dev devName code s)"
  by (simp add: newEvents_def showDecryptError_def showDialog_def emit_def Let_def
        split: prod.splits)

lemma showDecryptError_any_state:
  "newEvents s (showDecryptError g dev devName code s)
     = newEvents t (showDecryptError g dev devName code t)"
  by (simp add: newEvents_def showDecryptError_def showDialog_def emit_def Let_def
        split: prod.splits)

lemma showDecryptError_presents:
  "filter presentsDialog (newEvents s (showDecryptError g dev devName code s))
     = newEvents s (showDecryptError g dev devName code s)"
  by (simp add: newEvents_def showDecryptError_def showDialog_def emit_def Let_def
        split: prod.splits)

subsection \<open>Events of the result handlers\<close>

lemma newEvents_append: "events s' = events s @ es \<Longrightarrow> newEvents s s' = es"
  by (simp add: newEvents_def)

subsection \<open>Dialogs and the override cursor\<close>

lemma dialogUnderCursor_zero: "dialogUnderCursor 0 es = False"
proof (induction es)
  case Nil
  show ?case by simp
next
  case (Cons e es)
  then show ?case by (cases e) simp_all
qed

lemma dialogUnderCursor_skip:
  assumes "\<not> presentsDialog e" and "e \<noteq> RestoreOverrideCursor"
  shows "dialogUnderCursor n (e # es) = dialogUnderCursor n es"
  using assms by (cases e) simp_all

lemma dialogUnderCursor_dialog:
  assumes "presentsDialog d"
  shows "dialogUnderCursor n (d # es) = (0 < n)"
proof (cases "n = 0")
  case True
  then show ?thesis by (simp add: dialogUnderCursor_zero)
next
  case False
  with assms show ?thesis by (cases d) simp_all
qed

lemma dialogUnderCursor_pre:
  assumes "\<forall>e \<in> set pre. \<not> presentsDialog e \<and> e \<noteq> RestoreOverrideCursor"
    and "presentsDialog d"
  shows "dialogUnderCursor n (pre @ d # post) = (0 < n)"
  using assms(1)
proof (induction pre)
  case Nil
  show ?case using assms(2) by (simp only: append_Nil dialogUnderCursor_dialog)
next
  case (Cons a pre)
  then have a: "\<not> presentsDialog a" "a \<noteq> RestoreOverrideCursor"
    and r: "dialogUnderCursor n (pre @ d # post) = (0 < n)"
    by simp_all
  have "dialogUnderCursor n ((a # pre) @ d # post) = dialogUnderCursor n (pre @ d # post)"
    using dialogUnderCursor_skip [OF a] by simp
  with r show ?case by simp
qed

lemma cleared_from_shape:
  assumes "events s' = events s @ RestoreOverrideCursor # pre @ d # post"
    and "\<forall>e \<in> set pre. \<not> presentsDialog e \<and> e \<noteq> RestoreOverrideCursor"
    and "presentsDialog d"
  shows "clearedBeforeDialog (newEvents s s')
     \<and> dialogUnderCursor c (newEvents s s') = (2 \<le> c)"
proof -
  have n: "newEvents s s' = RestoreOverrideCursor # pre @ d # post"
    using assms(1) by (rule newEvents_append)
  have "dialogUnderCursor (c - 1) (pre @ d # post) = (0 < c - 1)"
    using assms(2) assms(3) by (rule dialogUnderCursor_pre)
  then have "dialogUnderCursor c (RestoreOverrideCursor # pre @ d # post) = (2 \<le> c)"
    by (simp only: dialogUnderCursor.simps) arith
  then show ?thesis
    by (simp only: n clearedBeforeDialog.simps simp_thms)
qed

lemma showPreEncryptError_shape:
  "\<exists>t m v. events (showPreEncryptError g dev devName code s) = events s @ [ShowDialog t m v]
     \<and> overrideCursors (showPreEncryptError g dev devName code s) = overrideCursors s"
  by (simp add: showPreEncryptError_def showDialog_def emit_def Let_def split: prod.splits)

lemma showChgPwdError_shape:
  "\<exists>t m v. events (showChgPwdError g dev devName code s) = events s @ [ShowDialog t m v]
     \<and> overrideCursors (showChgPwdError g dev devName code s) = overrideCursors s"
  by (simp add: showChgPwdError_def showDialog_def emit_def Let_def split: prod.splits)

lemma showRebootOnPreencrypted_shape:
  "\<exists>t m es. events (showRebootOnPreencrypted choice dev devName s) = events s @ RebootDialog t m # es
     \<and> overrideCursors (showRebootOnPreencrypted choice dev devName s) = overrideCursors s"
  by (simp add: showRebootOnPreencrypted_def requestReboot_def emit_def Let_def)

lemma restore_shape:
  "events (restoreOverrideCursor s) = events s @ [RestoreOverrideCursor]
   \<and> overrideCursors (restoreOverrideCursor s) = overrideCursors s - 1"
  by (simp add: restoreOverrideCursor_def emit_def)

lemma onPreencryptResult_cursor:
  "clearedBeforeDialog (newEvents s (onPreencryptResult g choice dev devName aux code s))
   \<and> dialogUnderCursor c (newEvents s (onPreencryptResult g choice dev devName aux code s))
       = (2 \<le> c)
   \<and> overrideCursors (onPreencryptResult g choice dev devName aux code s) = overrideCursors s - 1"
proof (cases "code \<noteq> kSuccess g")
  case True
  from showPreEncryptError_shape [of g dev devName code "restoreOverrideCursor s"]
  obtain t m v where e: "events (showPreEncryptError g dev devName code (restoreOverrideCursor s))
      = events (restoreOverrideCursor s) @ [ShowDialog t m v]"
    and o: "overrideCursors (showPreEncryptError g dev devName code (restoreOverrideCursor s))
      = overrideCursors (restoreOverrideCursor s)"
    by blast
  have "events (onPreencryptResult g choice dev devName aux code s)
      = events s @ RestoreOverrideCursor # [] @ ShowDialog t m v # []"
    using True e by (simp add: onPreencryptResult_def Let_def restore_shape)
  from cleared_from_shape [OF this, of c] o True show ?thesis
    by (simp add: onPreencryptResult_def Let_def restore_shape)
next
  case False
  from showRebootOnPreencrypted_shape [of choice dev devName "restoreOverrideCursor s"]
  obtain t m es where e: "events (showRebootOnPreencrypted choice dev devName (restoreOverrideCursor s))
      = events (restoreOverrideCursor s) @ RebootDialog t m # es"
    and o: "overrideCursors (showRebootOnPreencrypted choice dev devName (restoreOverrideCursor s))
      = overrideCursors (restoreOverrideCursor s)"
    by blast
  have "events (onPreencryptResult g choice dev devName aux code s)
      = events s @ RestoreOverrideCursor # [] @ RebootDialog t m # es"
    using False e by (simp add: onPreencryptResult_def Let_def restore_shape)
  from cleared_from_shape [OF this, of c] o False show ?thesis
    by (simp add: onPreencryptResult_def Let_def restore_shape)
qed

lemma onChgPassphraseResult_cursor:
  "clearedBeforeDialog (newEvents s (onChgPassphraseResult g dev devName aux code s))
   \<and> dialogUnderCursor c (newEvents s (onChgPassphraseResult g dev devName aux code s))
       = (2 \<le> c)
   \<and> overrideCursors (onChgPassphraseResult g dev devName aux code s) = overrideCursors s - 1"
proof -
  from showChgPwdError_shape [of g dev devName code "restoreOverrideCursor s"]
  obtain t m v where e: "events (showChgPwdError g dev devName code (restoreOverrideCursor s))
      = events (restoreOverrideCursor s) @ [ShowDialog t m v]"
    and o: "overrideCursors (showChgPwdError g dev devName code (restoreOverrideCursor s))
      = overrideCursors (restoreOverrideCursor s)"
    by blast
  have "events (onChgPassphraseResult g dev devName aux code s)
      = events s @ RestoreOverrideCursor # [] @ ShowDialog t m v # []"
    using e by (simp add: onChgPassphraseResult_def restore_shape)
  from cleared_from_shape [OF this, of c] o show ?thesis
    by (simp add: onChgPassphraseResult_def restore_shape)
qed

lemma onEncryptResult_cursor:
  assumes "onEncryptResult dev devName code s = Inr s'"
  shows "clearedBeforeDialog (newEvents s s')
     \<and> dialogUnderCursor c (newEvents s s') = (2 \<le> c)
     \<and> overrideCursors s' = overrideCursors s - 1"
proof (cases "encryptDialogs s dev")
  case None
  from onEncryptResult_absent [OF None, of devName code] assms
  obtain t m v where e: "events s' = events s @ RestoreOverrideCursor # [] @ ShowDialog t m v # []"
    and o: "overrideCursors s' = overrideCursors s - 1"
    by auto
  from cleared_from_shape [OF e, of c] o show ?thesis by simp
next
  case (Some p)
  show ?thesis
  proof (cases "dialogAt s p")
    case None
    with assms Some show ?thesis by (simp add: onEncryptResult_dangling)
  next
    case d: (Some d)
    from onEncryptResult_live [OF Some d, of devName code] assms
    obtain t m v where e: "events s' = events s @ RestoreOverrideCursor # [DeleteDialog p] @ ShowDialog t m v # []"
      and o: "overrideCursors s' = overrideCursors s - 1"
      by auto
    from cleared_from_shape [OF e, of c] o show ?thesis by simp
  qed
qed

lemma onDecryptResult_cursor:
  assumes "onDecryptResult g choice dev devName aux code s = Inr s'"
  shows "clearedBeforeDialog (newEvents s s')
     \<and> dialogUnderCursor c (newEvents s s') = (2 \<le> c)
     \<and> overrideCursors s' = overrideCursors s - 1"
proof -
  obtain s3 pre where s3: "s' = (if code = - kRebootRequired g
            then showRebootOnDecrypted choice dev devName s3
            else showDecryptError g dev devName code s3)"
    and e3: "events s3 = events s @ RestoreOverrideCursor # pre"
    and pre: "\<forall>e \<in> set pre. \<not> presentsDialog e \<and> e \<noteq> RestoreOverrideCursor"
    and o3: "overrideCursors s3 = overrideCursors s - 1"
  proof (cases "decryptDialogs s dev")
    case None
    from onDecryptResult_absent [OF None, of g choice devName aux code] assms
    have "s' = (if code = - kRebootRequired g
            then showRebootOnDecrypted choice dev devName (restoreOverrideCursor s)
            else showDecryptError g dev devName code (restoreOverrideCursor s))"
      by simp
    from that [OF this, of "[]"] show ?thesis by (simp add: restore_shape)
  next
    case (Some p)
    show ?thesis
    proof (cases "dialogAt s p")
      case None
      with assms Some show ?thesis by (simp add: onDecryptResult_dangling)
    next
      case d: (Some d)
      from onDecryptResult_live [OF Some d, of g choice devName aux code] assms
      obtain s3 where "s' = (if code = - kRebootRequired g
            then showRebootOnDecrypted choice dev devName s3
            else showDecryptError g dev devName code s3)"
        "events s3 = events s @ RestoreOverrideCursor # [DeleteLater p]"
        "overrideCursors s3 = overrideCursors s - 1"
        by auto
      from that [OF this(1), of "[DeleteLater p]"] this(2,3) show ?thesis by simp
    qed
  qed
  have o: "overrideCursors s' = overrideCursors s - 1"
    by (simp add: s3 o3 showRebootOnDecrypted_fields showDecryptError_fields)
  show ?thesis
  proof (cases "code = - kRebootRequired g")
    case True
    have "events s' = events s @ RestoreOverrideCursor # pre
        @ RebootDialog ''Decrypt device''
            (arg ''Please reboot to decrypt device %1.'' (deviceLabel devName dev))
          # (if choice = 1 then [RequestReboot] else [])"
      using True by (simp add: s3 e3 showRebootOnDecrypted_fields)
    from cleared_from_shape [OF this pre, of c] o show ?thesis by simp
  next
    case False
    obtain t m v where "events (showDecryptError g dev devName code s3) = events s3 @ [ShowDialog t m v]"
      using showDecryptError_fields [of g dev devName code s3] by blast
    with False have "events s' = events s @ RestoreOverrideCursor # pre @ ShowDialog t m v # []"
      by (simp add: s3 e3)
    from cleared_from_shape [OF this pre, of c] o show ?thesis by simp
  qed
qed

lemma onEncryptProgress_cursor:
  assumes "onEncryptProgress dev devName v s = Inr s'"
  shows "(encryptDialogs s dev = None \<longrightarrow>
            clearedBeforeDialog (newEvents s s')
            \<and> dialogUnderCursor c (newEvents s s') = (2 \<le> c)
            \<and> overrideCursors s' = overrideCursors s - 1)
     \<and> (\<forall>p. encryptDialogs s dev = Some p \<longrightarrow>
            newEvents s s' = [UpdateProgress p v, ShowProcessDialog p]
            \<and> \<not> clearedBeforeDialog (newEvents s s')
            \<and> dialogUnderCursor c (newEvents s s') = (1 \<le> c)
            \<and> overrideCursors s' = overrideCursors s)"
proof (cases "encryptDialogs s dev")
  case None
  define p where "p = length (dialogs s)"
  from onEncryptProgress_new [OF None, of devName v] assms
  have e: "events s' = events s @ RestoreOverrideCursor # [NewProcessDialog p, UpdateProgress p v]
        @ ShowProcessDialog p # []"
    and o: "overrideCursors s' = overrideCursors s - 1"
    by (auto simp: p_def)
  from cleared_from_shape [OF e, of c] o None show ?thesis by simp
next
  case (Some p)
  show ?thesis
  proof (cases "dialogAt s p")
    case None
    with assms Some show ?thesis by (simp add: onEncryptProgress_dangling)
  next
    case d: (Some d)
    from onEncryptProgress_update [OF Some d, of devName v] assms
    have "events s' = events s @ [UpdateProgress p v, ShowProcessDialog p]"
      and o: "overrideCursors s' = overrideCursors s"
      by auto
    from newEvents_append [OF this(1)] o Some show ?thesis by auto
  qed
qed

lemma onDecryptProgress_cursor:
  assumes "onDecryptProgress dev devName v s = Inr s'"
  shows "(decryptDialogs s dev = None \<longrightarrow>
            clearedBeforeDialog (newEvents s s')
            \<and> dialogUnderCursor c (newEvents s s') = (2 \<le> c)
            \<and> overrideCursors s' = overrideCursors s - 1)
     \<and> (\<forall>p. decryptDialogs s dev = Some p \<longrightarrow>
            newEvents s s' = [UpdateProgress p v, ShowProcessDialog p]
            \<and> \<not> clearedBeforeDialog (newEvents s s')
            \<and> dialogUnderCursor c (newEvents s s') = (1 \<le> c)
            \<and> overrideCursors s' = overrideCursors s)"
proof (cases "decryptDialogs s dev")
  case None
  define p where "p = length (dialogs s)"
  from onDecryptProgress_new [OF None, of devName v] assms
  have e: "events s' = events s @ RestoreOverrideCursor # [NewProcessDialog p, UpdateProgress p v]
        @ ShowProcessDialog p # []"
    and o: "overrideCursors s' = overrideCursors s - 1"
    by (auto simp: p_def)
  from cleared_from_shape [OF e, of c] o None show ?thesis by simp
next
  case (Some p)
  show ?thesis
  proof (cases "dialogAt s p")
    case None
    with assms Some show ?thesis by (simp add: onDecryptProgress_dangling)
  next
    case d: (Some d)
    from onDecryptProgress_update [OF Some d, of devName v] assms
    have "events s' = events s @ [UpdateProgress p v, ShowProcessDialog p]"
      and o: "overrideCursors s' = overrideCursors s"
      by auto
    from newEvents_append [OF this(1)] o Some show ?thesis by auto
  qed
qed

section \<open>The password hook\<close>

text \<open>
  C1, as the specification states it, fails: the flow never resets the cancelled slot, so a
  caller that passes it as true and then enters a passphrase gets both a non-empty passphrase
  and cancelled = true.
\<close>

theorem acquire_both_hold_counterexample:
  "returned (onAcquireDevicePwd sampleGlobals passwordOnlyDevices sampleTPM
              \<lparr>execResult = 1, unlockKey = (kPwd, ''abc'')\<rparr>
              ''/dev/sda1'' (Some []) (Some True) initialHandler)
   \<and> \<not> (passphraseGiven (onAcquireDevicePwd sampleGlobals passwordOnlyDevices sampleTPM
              \<lparr>execResult = 1, unlockKey = (kPwd, ''abc'')\<rparr>
              ''/dev/sda1'' (Some []) (Some True) initialHandler)
        \<noteq> cancelledSet (onAcquireDevicePwd sampleGlobals passwordOnlyDevices sampleTPM
              \<lparr>execResult = 1, unlockKey = (kPwd, ''abc'')\<rparr>
              ''/dev/sda1'' (Some []) (Some True) initialHandler))"
  by (simp add: onAcquireDevicePwd_def acquirePassphrase_def
        sampleGlobals_def passwordOnlyDevices_def pinDevices_def unknownDevices_def
        passphraseGiven_def cancelledSet_def)

text \<open>
  C1 (amended): whenever \<^verbatim>\<open>onAcquireDevicePwd\<close> returns true, the passphrase is non-empty
  or the cancelled slot is true, for every device and every initial state of the slots; and
  exactly one of the two holds when the caller passed the cancelled slot as false.
\<close>

theorem acquire_never_both_falsy:
  assumes "returned (onAcquireDevicePwd g encKeyType tpm dlg dev pwd cancelled s)"
  shows "(passphraseGiven (onAcquireDevicePwd g encKeyType tpm dlg dev pwd cancelled s)
            \<or> cancelledSet (onAcquireDevicePwd g encKeyType tpm dlg dev pwd cancelled s))
         \<and> (cancelled = Some False \<longrightarrow>
              passphraseGiven (onAcquireDevicePwd g encKeyType tpm dlg dev pwd cancelled s)
                \<noteq> cancelledSet (onAcquireDevicePwd g encKeyType tpm dlg dev pwd cancelled s))"
proof (cases pwd)
  case None
  with assms show ?thesis by (simp add: onAcquireDevicePwd_def)
next
  case (Some p0)
  show ?thesis
  proof (cases cancelled)
    case None
    with assms Some show ?thesis by (simp add: onAcquireDevicePwd_def)
  next
    case c: (Some c0)
    show ?thesis
      using assms unfolding Some c
      by (simp add: onAcquireDevicePwd_def acquirePassphrase_def acquirePassphraseByPIN_def
            acquirePassphraseByTPM_def passphraseGiven_def cancelledSet_def Let_def
          split: if_splits)
  qed
qed

theorem acquire_never_both_falsy_witness:
  "returned (onAcquireDevicePwd sampleGlobals pinDevices sampleTPM
              \<lparr>execResult = 1, unlockKey = (kPin, ''0000'')\<rparr>
              ''/dev/sda1'' (Some ''old'') (Some False) initialHandler)
   \<and> \<not> passphraseGiven (onAcquireDevicePwd sampleGlobals pinDevices sampleTPM
              \<lparr>execResult = 1, unlockKey = (kPin, ''0000'')\<rparr>
              ''/dev/sda1'' (Some ''old'') (Some False) initialHandler)
   \<and> cancelledSet (onAcquireDevicePwd sampleGlobals pinDevices sampleTPM
              \<lparr>execResult = 1, unlockKey = (kPin, ''0000'')\<rparr>
              ''/dev/sda1'' (Some ''old'') (Some False) initialHandler)"
proof -
  have r: "returned (onAcquireDevicePwd sampleGlobals pinDevices sampleTPM
              \<lparr>execResult = 1, unlockKey = (kPin, ''0000'')\<rparr>
              ''/dev/sda1'' (Some ''old'') (Some False) initialHandler)"
    by (simp add: onAcquireDevicePwd_def acquirePassphraseByPIN_def
        sampleGlobals_def passwordOnlyDevices_def pinDevices_def unknownDevices_def
          sampleTPM_def)
  have "\<not> passphraseGiven (onAcquireDevicePwd sampleGlobals pinDevices sampleTPM
              \<lparr>execResult = 1, unlockKey = (kPin, ''0000'')\<rparr>
              ''/dev/sda1'' (Some ''old'') (Some False) initialHandler)"
    by (simp add: onAcquireDevicePwd_def acquirePassphraseByPIN_def
        sampleGlobals_def passwordOnlyDevices_def pinDevices_def unknownDevices_def
          sampleTPM_def passphraseGiven_def)
  with r acquire_never_both_falsy [OF r] show ?thesis by simp
qed

text \<open>
  C2: \<^verbatim>\<open>onAcquireDevicePwd\<close> returns false exactly when one of the two output pointers
  is null or the key type of the device is none of \<^verbatim>\<open>kPasswordOnly\<close>, \<^verbatim>\<open>kTPMOnly\<close>,
  \<^verbatim>\<open>kTPMAndPIN\<close>; in every other case, whatever the user does with the dialog, it
  returns true.
\<close>

theorem acquire_returns_false_iff:
  "(\<not> returned (onAcquireDevicePwd g encKeyType tpm dlg dev pwd cancelled s))
     = (pwd = None \<or> cancelled = None
        \<or> encKeyType dev \<notin> {kPasswordOnly g, kTPMOnly g, kTPMAndPIN g})"
  by (auto simp: onAcquireDevicePwd_def Let_def split: option.splits prod.splits)

theorem acquire_returns_false_iff_witness:
  "returned (onAcquireDevicePwd sampleGlobals passwordOnlyDevices sampleTPM
              \<lparr>execResult = 0, unlockKey = (kPwd, [])\<rparr>
              ''/dev/sda1'' (Some []) (Some False) initialHandler)
   \<and> \<not> returned (onAcquireDevicePwd sampleGlobals unknownDevices sampleTPM
              \<lparr>execResult = 1, unlockKey = (kPwd, ''abc'')\<rparr>
              ''/dev/sda1'' (Some []) (Some False) initialHandler)
   \<and> \<not> returned (onAcquireDevicePwd sampleGlobals passwordOnlyDevices sampleTPM
              \<lparr>execResult = 1, unlockKey = (kPwd, ''abc'')\<rparr>
              ''/dev/sda1'' None (Some False) initialHandler)"
  using acquire_returns_false_iff [of sampleGlobals passwordOnlyDevices sampleTPM
          "\<lparr>execResult = 0, unlockKey = (kPwd, [])\<rparr>" "''/dev/sda1''" "Some []" "Some False"
          initialHandler]
        acquire_returns_false_iff [of sampleGlobals unknownDevices sampleTPM
          "\<lparr>execResult = 1, unlockKey = (kPwd, ''abc'')\<rparr>" "''/dev/sda1''" "Some []" "Some False"
          initialHandler]
        acquire_returns_false_iff [of sampleGlobals passwordOnlyDevices sampleTPM
          "\<lparr>execResult = 1, unlockKey = (kPwd, ''abc'')\<rparr>" "''/dev/sda1''" None "Some False"
          initialHandler]
  by (simp add: sampleGlobals_def passwordOnlyDevices_def pinDevices_def unknownDevices_def)

text \<open>
  C9, as stated, fails on an accepting path that yields no passphrase: the user accepts the
  PIN dialog, the TPM has nothing for that PIN, and the check after the switch sets the
  cancelled slot, which the caller had passed as false.
\<close>

theorem acquire_cancelled_forced_counterexample:
  "execResult \<lparr>execResult = 1, unlockKey = (kPin, ''0000'')\<rparr> = 1
   \<and> cancelledSlot (onAcquireDevicePwd sampleGlobals pinDevices sampleTPM
        \<lparr>execResult = 1, unlockKey = (kPin, ''0000'')\<rparr>
        ''/dev/sda1'' (Some []) (Some False) initialHandler) \<noteq> Some False"
  by (simp add: onAcquireDevicePwd_def acquirePassphraseByPIN_def
        sampleGlobals_def passwordOnlyDevices_def pinDevices_def unknownDevices_def
        sampleTPM_def)

text \<open>
  C9 (amended): the flow never assigns false to the cancelled slot: after the call the slot
  holds the caller's value or true. Each sub-flow leaves it as passed in when its dialog is
  accepted (the TPM-only one always), and the whole flow leaves it as passed in on every
  path that yields a non-empty passphrase.
\<close>

theorem acquire_cancelled_only_set:
  "(cancelledSlot (onAcquireDevicePwd g encKeyType tpm dlg dev pwd cancelled s) = cancelled
      \<or> cancelledSlot (onAcquireDevicePwd g encKeyType tpm dlg dev pwd cancelled s) = Some True)
   \<and> (execResult dlg = 1 \<longrightarrow>
        snd (acquirePassphrase dlg dev c) = c \<and> snd (acquirePassphraseByPIN tpm dlg dev c) = c)
   \<and> snd (acquirePassphraseByTPM tpm dev c) = c
   \<and> (passphraseGiven (onAcquireDevicePwd g encKeyType tpm dlg dev pwd cancelled s) \<longrightarrow>
        cancelledSlot (onAcquireDevicePwd g encKeyType tpm dlg dev pwd cancelled s) = cancelled)"
  by (auto simp: onAcquireDevicePwd_def acquirePassphrase_def acquirePassphraseByPIN_def
        acquirePassphraseByTPM_def passphraseGiven_def Let_def
      split: option.splits if_splits)

theorem acquire_cancelled_only_set_witness:
  "passphraseGiven (onAcquireDevicePwd sampleGlobals pinDevices sampleTPM
        \<lparr>execResult = 1, unlockKey = (kPin, ''1234'')\<rparr>
        ''/dev/sda1'' (Some []) (Some True) initialHandler)
   \<and> cancelledSlot (onAcquireDevicePwd sampleGlobals pinDevices sampleTPM
        \<lparr>execResult = 1, unlockKey = (kPin, ''1234'')\<rparr>
        ''/dev/sda1'' (Some []) (Some True) initialHandler) = Some True
   \<and> snd (acquirePassphraseByPIN sampleTPM \<lparr>execResult = 1, unlockKey = (kPin, ''1234'')\<rparr>
            ''/dev/sda1'' False) = False"
proof -
  have p: "passphraseGiven (onAcquireDevicePwd sampleGlobals pinDevices sampleTPM
        \<lparr>execResult = 1, unlockKey = (kPin, ''1234'')\<rparr>
        ''/dev/sda1'' (Some []) (Some True) initialHandler)"
    by (simp add: onAcquireDevicePwd_def acquirePassphraseByPIN_def
        sampleGlobals_def passwordOnlyDevices_def pinDevices_def unknownDevices_def
          sampleTPM_def passphraseGiven_def)
  have e: "execResult \<lparr>execResult = 1, unlockKey = (kPin, ''1234'')\<rparr> = 1"
    by simp
  from p e acquire_cancelled_only_set [of sampleGlobals pinDevices sampleTPM
      "\<lparr>execResult = 1, unlockKey = (kPin, ''1234'')\<rparr>" "''/dev/sda1''" "Some []" "Some True"
      initialHandler False]
  show ?thesis by simp
qed

section \<open>Progress dialogs and their registry\<close>

text \<open>
  C7: in a run of progress notifications for a device that is not in the registry of their
  kind, the first one creates one dialog and registers it, and the following ones update
  that dialog: after the run the registry has gained exactly the entry of the device, the
  store exactly one dialog, and that dialog shows the last progress value. A run for a
  device already registered creates nothing. A progress notification for any other device
  leaves the entry as it is. In a sequence of progress notifications for any devices whose
  entries, if any, are live, as many dialogs are created as there are devices in the
  sequence that were not registered before, and every entry keeps its dialog. The registry
  is a map, so it holds at most one entry per device.
\<close>

theorem progress_creates_one_entry:
  "(encryptDialogs s dev = None \<longrightarrow>
      (\<exists>s' d. encryptProgressRun dev devName (v # vs) s = Inr s'
         \<and> encryptDialogs s' = (encryptDialogs s)(dev \<mapsto> length (dialogs s))
         \<and> length (dialogs s') = Suc (length (dialogs s))
         \<and> dialogAt s' (length (dialogs s)) = Some d
         \<and> dlgProgress d = Some (last (v # vs)) \<and> dlgVisible d))
   \<and> (decryptDialogs s dev = None \<longrightarrow>
      (\<exists>s' d. decryptProgressRun dev devName (v # vs) s = Inr s'
         \<and> decryptDialogs s' = (decryptDialogs s)(dev \<mapsto> length (dialogs s))
         \<and> length (dialogs s') = Suc (length (dialogs s))
         \<and> dialogAt s' (length (dialogs s)) = Some d
         \<and> dlgProgress d = Some (last (v # vs)) \<and> dlgVisible d))
   \<and> (encryptDialogs s dev = Some p \<and> dialogAt s p \<noteq> None \<longrightarrow>
      (\<exists>s'. encryptProgressRun dev devName ws s = Inr s'
         \<and> encryptDialogs s' = encryptDialogs s
         \<and> length (dialogs s') = length (dialogs s)))
   \<and> (decryptDialogs s dev = Some p \<and> dialogAt s p \<noteq> None \<longrightarrow>
      (\<exists>s'. decryptProgressRun dev devName ws s = Inr s'
         \<and> decryptDialogs s' = decryptDialogs s
         \<and> length (dialogs s') = length (dialogs s)))
   \<and> (encryptDialogs s dev = Some p \<and> onEncryptProgress dev2 devName2 v s = Inr s2 \<longrightarrow>
        encryptDialogs s2 dev = Some p)
   \<and> (decryptDialogs s dev = Some p \<and> onDecryptProgress dev2 devName2 v s = Inr s2 \<longrightarrow>
        decryptDialogs s2 dev = Some p)
   \<and> ((\<forall>n \<in> set ns. entryLive s (encryptDialogs s (fst n))) \<longrightarrow>
      (\<exists>s'. encryptProgressSeq ns s = Inr s'
         \<and> length (dialogs s') = length (dialogs s) + card (fst ` set ns - dom (encryptDialogs s))
         \<and> dom (encryptDialogs s') = dom (encryptDialogs s) \<union> fst ` set ns
         \<and> (\<forall>d q. encryptDialogs s d = Some q \<longrightarrow> encryptDialogs s' d = Some q)))
   \<and> ((\<forall>n \<in> set ns. entryLive s (decryptDialogs s (fst n))) \<longrightarrow>
      (\<exists>s'. decryptProgressSeq ns s = Inr s'
         \<and> length (dialogs s') = length (dialogs s) + card (fst ` set ns - dom (decryptDialogs s))
         \<and> dom (decryptDialogs s') = dom (decryptDialogs s) \<union> fst ` set ns
         \<and> (\<forall>d q. decryptDialogs s d = Some q \<longrightarrow> decryptDialogs s' d = Some q)))"
proof (intro conjI impI)
  assume "encryptDialogs s dev = None"
  from encryptProgressRun_fresh [OF this, of devName v vs]
  show "\<exists>s' d. encryptProgressRun dev devName (v # vs) s = Inr s'
         \<and> encryptDialogs s' = (encryptDialogs s)(dev \<mapsto> length (dialogs s))
         \<and> length (dialogs s') = Suc (length (dialogs s))
         \<and> dialogAt s' (length (dialogs s)) = Some d
         \<and> dlgProgress d = Some (last (v # vs)) \<and> dlgVisible d"
    by blast
next
  assume "decryptDialogs s dev = None"
  from decryptProgressRun_fresh [OF this, of devName v vs]
  show "\<exists>s' d. decryptProgressRun dev devName (v # vs) s = Inr s'
         \<and> decryptDialogs s' = (decryptDialogs s)(dev \<mapsto> length (dialogs s))
         \<and> length (dialogs s') = Suc (length (dialogs s))
         \<and> dialogAt s' (length (dialogs s)) = Some d
         \<and> dlgProgress d = Some (last (v # vs)) \<and> dlgVisible d"
    by blast
next
  assume a: "encryptDialogs s dev = Some p \<and> dialogAt s p \<noteq> None"
  then obtain d where "dialogAt s p = Some d" by auto
  with a encryptProgressRun_registered [of s dev p d devName ws]
  show "\<exists>s'. encryptProgressRun dev devName ws s = Inr s'
         \<and> encryptDialogs s' = encryptDialogs s
         \<and> length (dialogs s') = length (dialogs s)"
    by blast
next
  assume a: "decryptDialogs s dev = Some p \<and> dialogAt s p \<noteq> None"
  then obtain d where "dialogAt s p = Some d" by auto
  with a decryptProgressRun_registered [of s dev p d devName ws]
  show "\<exists>s'. decryptProgressRun dev devName ws s = Inr s'
         \<and> decryptDialogs s' = decryptDialogs s
         \<and> length (dialogs s') = length (dialogs s)"
    by blast
next
  assume "encryptDialogs s dev = Some p \<and> onEncryptProgress dev2 devName2 v s = Inr s2"
  then show "encryptDialogs s2 dev = Some p"
    using onEncryptProgress_keeps_entries by blast
next
  assume "decryptDialogs s dev = Some p \<and> onDecryptProgress dev2 devName2 v s = Inr s2"
  then show "decryptDialogs s2 dev = Some p"
    using onDecryptProgress_keeps_entries by blast
next
  assume "\<forall>n \<in> set ns. entryLive s (encryptDialogs s (fst n))"
  then show "\<exists>s'. encryptProgressSeq ns s = Inr s'
         \<and> length (dialogs s') = length (dialogs s) + card (fst ` set ns - dom (encryptDialogs s))
         \<and> dom (encryptDialogs s') = dom (encryptDialogs s) \<union> fst ` set ns
         \<and> (\<forall>d q. encryptDialogs s d = Some q \<longrightarrow> encryptDialogs s' d = Some q)"
    by (rule encryptProgressSeq_count)
next
  assume "\<forall>n \<in> set ns. entryLive s (decryptDialogs s (fst n))"
  then show "\<exists>s'. decryptProgressSeq ns s = Inr s'
         \<and> length (dialogs s') = length (dialogs s) + card (fst ` set ns - dom (decryptDialogs s))
         \<and> dom (decryptDialogs s') = dom (decryptDialogs s) \<union> fst ` set ns
         \<and> (\<forall>d q. decryptDialogs s d = Some q \<longrightarrow> decryptDialogs s' d = Some q)"
    by (rule decryptProgressSeq_count)
qed

theorem progress_creates_one_entry_witness:
  "(\<exists>s' d. encryptProgressRun ''/dev/sda1'' ''Data'' [1 / 4, 1 / 2, 3 / 4] initialHandler = Inr s'
      \<and> encryptDialogs s' = [''/dev/sda1'' \<mapsto> 0]
      \<and> length (dialogs s') = 1
      \<and> dialogAt s' 0 = Some d \<and> dlgProgress d = Some (3 / 4) \<and> dlgVisible d)
   \<and> (\<exists>s'. decryptProgressSeq
            [(''/dev/sda1'', ''Data'', 1 / 4), (''/dev/sdb1'', ''Backup'', 1 / 8),
             (''/dev/sda1'', ''Data'', 1 / 2), (''/dev/sdb1'', ''Backup'', 1 / 4)]
            initialHandler = Inr s'
      \<and> length (dialogs s') = 2
      \<and> dom (decryptDialogs s') = {''/dev/sda1'', ''/dev/sdb1''})"
proof -
  have h1: "encryptDialogs initialHandler ''/dev/sda1'' = None"
    by (simp add: initialHandler_def)
  have h2: "\<forall>n \<in> set [(''/dev/sda1'', ''Data'', 1 / 4), (''/dev/sdb1'', ''Backup'', 1 / 8),
             (''/dev/sda1'', ''Data'', 1 / 2), (''/dev/sdb1'', ''Backup'', 1 / 4 :: real)].
           entryLive initialHandler (decryptDialogs initialHandler (fst n))"
    by (simp add: initialHandler_def entryLive_def)
  have c: "card {''/dev/sda1'', ''/dev/sdb1''} = 2"
    by simp
  from progress_creates_one_entry [of initialHandler "''/dev/sda1''" "''Data''" "1 / 4"
      "[1 / 2, 3 / 4]" _ _ _ _ _
      "[(''/dev/sda1'', ''Data'', 1 / 4), (''/dev/sdb1'', ''Backup'', 1 / 8),
        (''/dev/sda1'', ''Data'', 1 / 2), (''/dev/sdb1'', ''Backup'', 1 / 4)]"] h1 h2 c
  show ?thesis by (simp add: initialHandler_def insert_commute numeral_2_eq_2)
qed

text \<open>
  C3 holds for encryption only. \<^verbatim>\<open>onEncryptProgress\<close> connects the new dialog's
  \<^verbatim>\<open>destroyed\<close> signal to the removal of the entry; \<^verbatim>\<open>onDecryptProgress\<close> connects
  nothing. When the dialog that a first decrypt progress notification for
  \<^verbatim>\<open>/dev/sda1\<close> created is destroyed, the entry stays in the decrypt registry and points
  to no dialog, and the next progress notification for the device uses the dead pointer.
  The same steps on the encrypt side leave no entry behind.
\<close>

theorem decrypt_entry_survives_destruction:
  "onDecryptProgress ''/dev/sda1'' ''Data'' (1 / 4) initialHandler
     = Inr (decryptingState\<lparr>overrideCursors := 0\<rparr>)
   \<and> destroyDialog 0 decryptingState
     = Inr (decryptingState\<lparr>dialogs := [None],
                            events := events decryptingState @ [DeleteDialog 0]\<rparr>)
   \<and> decryptDialogs (decryptingState\<lparr>dialogs := [None],
                            events := events decryptingState @ [DeleteDialog 0]\<rparr>)
         ''/dev/sda1'' = Some 0
   \<and> onDecryptProgress ''/dev/sda1'' ''Data'' (1 / 2)
         (decryptingState\<lparr>dialogs := [None],
                            events := events decryptingState @ [DeleteDialog 0]\<rparr>)
     = Inl UseAfterFree
   \<and> onEncryptProgress ''/dev/sda1'' ''Data'' (1 / 4) initialHandler
     = Inr (encryptingState\<lparr>overrideCursors := 0\<rparr>)
   \<and> destroyDialog 0 encryptingState
     = Inr (encryptingState\<lparr>encryptDialogs := Map.empty, dialogs := [None],
                            events := events encryptingState @ [DeleteDialog 0]\<rparr>)"
proof -
  have d: "destroyDialog 0 decryptingState
      = Inr (decryptingState\<lparr>dialogs := [None], events := events decryptingState @ [DeleteDialog 0]\<rparr>)"
    by (simp add: destroyDialog_def dialogAt_def decryptingState_def emit_def)
  have e: "destroyDialog 0 encryptingState
      = Inr (encryptingState\<lparr>encryptDialogs := Map.empty, dialogs := [None],
                             events := events encryptingState @ [DeleteDialog 0]\<rparr>)"
    by (simp add: destroyDialog_def dialogAt_def encryptingState_def emit_def)
  have u: "onDecryptProgress ''/dev/sda1'' ''Data'' (1 / 2)
            (decryptingState\<lparr>dialogs := [None], events := events decryptingState @ [DeleteDialog 0]\<rparr>)
        = Inl UseAfterFree"
    by (rule onDecryptProgress_dangling [where p = 0])
       (simp_all add: decryptingState_def dialogAt_def)
  have r: "decryptDialogs (decryptingState\<lparr>dialogs := [None],
                            events := events decryptingState @ [DeleteDialog 0]\<rparr>)
         ''/dev/sda1'' = Some 0"
    by (simp add: decryptingState_def)
  show ?thesis
    using d e u r decryptingState_reached encryptingState_reached by blast
qed

text \<open>
  C4 fails for the decrypt registry in the state that the defect of C3 leaves behind. After
  the decryption dialog of \<^verbatim>\<open>/dev/sda1\<close> has been destroyed, its entry is still in the
  registry, and the result notification calls \<^verbatim>\<open>deleteLater\<close> through the dead pointer
  (line 102) instead of removing the entry; a second notification does the same.
\<close>

theorem decrypt_result_uses_destroyed_dialog:
  "destroyDialog 0 decryptingState = Inr decryptDestroyedState
   \<and> decryptDialogs decryptDestroyedState ''/dev/sda1'' = Some 0
   \<and> dialogAt decryptDestroyedState 0 = None
   \<and> onDecryptResult sampleGlobals 0 ''/dev/sda1'' ''Data'' [] 0 decryptDestroyedState
       = Inl UseAfterFree"
proof -
  have r: "decryptDialogs decryptDestroyedState ''/dev/sda1'' = Some 0"
    by (simp add: decryptDestroyedState_def decryptingState_def)
  have d: "dialogAt decryptDestroyedState 0 = None"
    by (simp add: decryptDestroyedState_def dialogAt_def)
  from r d decryptDestroyedState_reached
    onDecryptResult_dangling [OF r d, of sampleGlobals 0 "''Data''" "[]" 0]
  show ?thesis by blast
qed

text \<open>
  What holds by design: a result notification for a device whose entry, if any, points to a
  dialog that still exists removes the entry from the registry of its kind, and a second
  result notification for the same device right after it returns as well and leaves both
  registries, the dialog store and the queue of deferred deletions unchanged.
\<close>

lemma result_removes_entry_idempotent:
  assumes "entryLive s (encryptDialogs s dev)" and "entryLive s (decryptDialogs s dev)"
  shows "(\<exists>s1 s2. onEncryptResult dev devName code s = Inr s1
            \<and> encryptDialogs s1 dev = None
            \<and> onEncryptResult dev devName2 code2 s1 = Inr s2
            \<and> encryptDialogs s2 = encryptDialogs s1 \<and> decryptDialogs s2 = decryptDialogs s1
            \<and> dialogs s2 = dialogs s1 \<and> deferredDeletes s2 = deferredDeletes s1)
       \<and> (\<exists>s1 s2. onDecryptResult g choice dev devName aux code s = Inr s1
            \<and> decryptDialogs s1 dev = None
            \<and> onDecryptResult g choice2 dev devName2 aux2 code2 s1 = Inr s2
            \<and> encryptDialogs s2 = encryptDialogs s1 \<and> decryptDialogs s2 = decryptDialogs s1
            \<and> dialogs s2 = dialogs s1 \<and> deferredDeletes s2 = deferredDeletes s1)"
proof
  obtain s1 where s1: "onEncryptResult dev devName code s = Inr s1" "encryptDialogs s1 dev = None"
  proof (cases "encryptDialogs s dev")
    case None
    with onEncryptResult_absent [OF None, of devName code] that show ?thesis by auto
  next
    case (Some p)
    with assms(1) obtain d where "dialogAt s p = Some d" by (auto simp: entryLive_def)
    with onEncryptResult_live [OF Some this, of devName code] that show ?thesis by auto
  qed
  from onEncryptResult_absent [OF s1(2), of devName2 code2]
  obtain s2 where "onEncryptResult dev devName2 code2 s1 = Inr s2"
    "encryptDialogs s2 = encryptDialogs s1" "decryptDialogs s2 = decryptDialogs s1"
    "dialogs s2 = dialogs s1" "deferredDeletes s2 = deferredDeletes s1"
    by auto
  with s1 show "\<exists>s1 s2. onEncryptResult dev devName code s = Inr s1
            \<and> encryptDialogs s1 dev = None
            \<and> onEncryptResult dev devName2 code2 s1 = Inr s2
            \<and> encryptDialogs s2 = encryptDialogs s1 \<and> decryptDialogs s2 = decryptDialogs s1
            \<and> dialogs s2 = dialogs s1 \<and> deferredDeletes s2 = deferredDeletes s1"
    by blast
next
  obtain s1 where s1: "onDecryptResult g choice dev devName aux code s = Inr s1"
      "decryptDialogs s1 dev = None"
  proof (cases "decryptDialogs s dev")
    case None
    with onDecryptResult_absent [OF None, of g choice devName aux code] that show ?thesis
      by (simp add: showRebootOnDecrypted_fields showDecryptError_fields
            restoreOverrideCursor_frame split: if_splits)
  next
    case (Some p)
    with assms(2) obtain d where "dialogAt s p = Some d" by (auto simp: entryLive_def)
    from onDecryptResult_live [OF Some this, of g choice devName aux code] that show ?thesis
      by (auto simp: showRebootOnDecrypted_fields showDecryptError_fields split: if_splits)
  qed
  have "\<exists>s2. onDecryptResult g choice2 dev devName2 aux2 code2 s1 = Inr s2
    \<and> encryptDialogs s2 = encryptDialogs s1 \<and> decryptDialogs s2 = decryptDialogs s1
    \<and> dialogs s2 = dialogs s1 \<and> deferredDeletes s2 = deferredDeletes s1"
    by (simp add: onDecryptResult_absent [OF s1(2)] showRebootOnDecrypted_fields
          showDecryptError_fields restoreOverrideCursor_frame)
  with s1 show "\<exists>s1 s2. onDecryptResult g choice dev devName aux code s = Inr s1
            \<and> decryptDialogs s1 dev = None
            \<and> onDecryptResult g choice2 dev devName2 aux2 code2 s1 = Inr s2
            \<and> encryptDialogs s2 = encryptDialogs s1 \<and> decryptDialogs s2 = decryptDialogs s1
            \<and> dialogs s2 = dialogs s1 \<and> deferredDeletes s2 = deferredDeletes s1"
    by blast
qed

lemma result_removes_entry_idempotent_example:
  "entryLive encryptingState (encryptDialogs encryptingState ''/dev/sda1'')
   \<and> entryLive encryptingState (decryptDialogs encryptingState ''/dev/sda1'')
   \<and> encryptDialogs encryptingState ''/dev/sda1'' = Some 0
   \<and> (\<exists>s1 s2. onEncryptResult ''/dev/sda1'' ''Data'' 0 encryptingState = Inr s1
          \<and> encryptDialogs s1 ''/dev/sda1'' = None
          \<and> onEncryptResult ''/dev/sda1'' ''Data'' 0 s1 = Inr s2
          \<and> encryptDialogs s2 = encryptDialogs s1 \<and> dialogs s2 = dialogs s1)"
proof -
  have h1: "entryLive encryptingState (encryptDialogs encryptingState ''/dev/sda1'')"
    and h2: "entryLive encryptingState (decryptDialogs encryptingState ''/dev/sda1'')"
    by (simp_all add: entryLive_def encryptingState_def dialogAt_def)
  have r: "encryptDialogs encryptingState ''/dev/sda1'' = Some 0"
    by (simp add: encryptingState_def)
  from result_removes_entry_idempotent [OF h1 h2, of "''Data''" 0 "''Data''" 0] h1 h2 r
  show ?thesis by blast
qed

section \<open>Decrypt results\<close>

text \<open>
  C5 fails in the state that the defect of C3 leaves behind. After the decryption dialog of
  \<^verbatim>\<open>/dev/sda1\<close> has been destroyed, its entry still points to it, and
  \<^verbatim>\<open>onDecryptResult\<close> uses the dead pointer at line 102, before it removes the entry and
  before it presents any dialog, for the negated \<^verbatim>\<open>kRebootRequired\<close> as for any other
  code.
\<close>

theorem decrypt_result_presents_nothing_after_destruction:
  "decryptDialogs decryptDestroyedState ''/dev/sda1'' = Some 0
   \<and> dialogAt decryptDestroyedState 0 = None
   \<and> - kRebootRequired sampleGlobals = - 4
   \<and> onDecryptResult sampleGlobals 1 ''/dev/sda1'' ''Data'' [] (- 4) decryptDestroyedState
       = Inl UseAfterFree
   \<and> onDecryptResult sampleGlobals 1 ''/dev/sda1'' ''Data'' [] (- 1) decryptDestroyedState
       = Inl UseAfterFree"
proof -
  have r: "decryptDialogs decryptDestroyedState ''/dev/sda1'' = Some 0"
    by (simp add: decryptDestroyedState_def decryptingState_def)
  have d: "dialogAt decryptDestroyedState 0 = None"
    by (simp add: decryptDestroyedState_def dialogAt_def)
  have k: "- kRebootRequired sampleGlobals = - 4"
    by (simp add: sampleGlobals_def)
  from r d k onDecryptResult_dangling [OF r d, of sampleGlobals 1 "''Data''" "[]" "- 4"]
    onDecryptResult_dangling [OF r d, of sampleGlobals 1 "''Data''" "[]" "- 1"]
  show ?thesis by blast
qed

text \<open>
  What holds by design: for every device whose entry, if any, points to a dialog that still
  exists and for every result code, \<^verbatim>\<open>onDecryptResult\<close> removes the device's entry from
  the decrypt registry and then, on the state without the entry, runs the reboot
  confirmation if the code is the negated \<^verbatim>\<open>kRebootRequired\<close> and
  \<^verbatim>\<open>showDecryptError\<close> otherwise: the only dialog presented is the reboot dialog in the
  first case and the one dialog of \<^verbatim>\<open>showDecryptError\<close> in the second.
\<close>

lemma decrypt_result_removes_then_presents:
  assumes "entryLive s (decryptDialogs s dev)"
  shows "\<exists>s3 s'. onDecryptResult g choice dev devName aux code s = Inr s'
      \<and> decryptDialogs s3 = (decryptDialogs s)(dev := None)
      \<and> decryptDialogs s' = (decryptDialogs s)(dev := None)
      \<and> (code = - kRebootRequired g \<longrightarrow>
            s' = showRebootOnDecrypted choice dev devName s3
            \<and> filter presentsDialog (newEvents s s')
                = [RebootDialog ''Decrypt device''
                     (arg ''Please reboot to decrypt device %1.'' (deviceLabel devName dev))])
      \<and> (code \<noteq> - kRebootRequired g \<longrightarrow>
            s' = showDecryptError g dev devName code s3
            \<and> (\<exists>t m v. filter presentsDialog (newEvents s s') = [ShowDialog t m v]
                  \<and> newEvents s (showDecryptError g dev devName code s) = [ShowDialog t m v]))"
proof -
  obtain s3 del where r: "onDecryptResult g choice dev devName aux code s =
       Inr (if code = - kRebootRequired g
            then showRebootOnDecrypted choice dev devName s3
            else showDecryptError g dev devName code s3)"
    and reg3: "decryptDialogs s3 = (decryptDialogs s)(dev := None)"
    and ev3: "events s3 = events s @ RestoreOverrideCursor # del"
    and del: "filter presentsDialog del = []"
  proof (cases "decryptDialogs s dev")
    case None
    have "decryptDialogs (restoreOverrideCursor s) = (decryptDialogs s)(dev := None)"
      using None by (auto simp: restoreOverrideCursor_frame)
    moreover have "events (restoreOverrideCursor s) = events s @ RestoreOverrideCursor # []"
      by (simp add: restoreOverrideCursor_def emit_def)
    ultimately show ?thesis
      using onDecryptResult_absent [OF None, of g choice devName aux code] that by simp
  next
    case (Some p)
    with assms obtain d where "dialogAt s p = Some d" by (auto simp: entryLive_def)
    from onDecryptResult_live [OF Some this, of g choice devName aux code]
    obtain s3 where "onDecryptResult g choice dev devName aux code s =
       Inr (if code = - kRebootRequired g
            then showRebootOnDecrypted choice dev devName s3
            else showDecryptError g dev devName code s3)"
      "decryptDialogs s3 = (decryptDialogs s)(dev := None)"
      "events s3 = events s @ RestoreOverrideCursor # [DeleteLater p]"
      by auto
    with that [of s3 "[DeleteLater p]"] show ?thesis by simp
  qed
  define s' where "s' = (if code = - kRebootRequired g
            then showRebootOnDecrypted choice dev devName s3
            else showDecryptError g dev devName code s3)"
  have r': "onDecryptResult g choice dev devName aux code s = Inr s'"
    using r by (simp add: s'_def)
  have reg': "decryptDialogs s' = (decryptDialogs s)(dev := None)"
    by (simp add: s'_def showRebootOnDecrypted_fields showDecryptError_fields reg3)
  have reboot: "filter presentsDialog (newEvents s s')
                = [RebootDialog ''Decrypt device''
                     (arg ''Please reboot to decrypt device %1.'' (deviceLabel devName dev))]"
    if "code = - kRebootRequired g"
    using that del by (simp add: s'_def newEvents_def showRebootOnDecrypted_fields ev3)
  have other: "\<exists>t m v. filter presentsDialog (newEvents s s') = [ShowDialog t m v]
                  \<and> newEvents s (showDecryptError g dev devName code s) = [ShowDialog t m v]"
    if "code \<noteq> - kRebootRequired g"
  proof -
    obtain t m v where "events (showDecryptError g dev devName code s) = events s @ [ShowDialog t m v]"
      using showDecryptError_fields [of g dev devName code s] by blast
    then have one: "newEvents s (showDecryptError g dev devName code s) = [ShowDialog t m v]"
      by (rule newEvents_append)
    have e': "events s' = events s3 @ newEvents s3 (showDecryptError g dev devName code s3)"
      using that showDecryptError_events [of g dev devName code s3] by (simp add: s'_def)
    have "newEvents s s' = drop (length (events s)) (events s')"
      by (simp only: newEvents_def)
    also have "\<dots> = RestoreOverrideCursor # del @ newEvents s3 (showDecryptError g dev devName code s3)"
      by (simp add: e' ev3)
    finally have "filter presentsDialog (newEvents s s')
        = newEvents s3 (showDecryptError g dev devName code s3)"
      using del by (simp add: showDecryptError_presents)
    then have "filter presentsDialog (newEvents s s')
        = newEvents s (showDecryptError g dev devName code s)"
      using showDecryptError_any_state [of s3 g dev devName code s] by simp
    with one show ?thesis by simp
  qed
  show ?thesis
    using r' reg3 reg' reboot other by (auto simp: s'_def)
qed

lemma decrypt_result_removes_then_presents_example:
  "entryLive decryptingState (decryptDialogs decryptingState ''/dev/sda1'')
   \<and> (\<exists>s'. onDecryptResult sampleGlobals 0 ''/dev/sda1'' ''Data'' [] (- 4) decryptingState = Inr s'
         \<and> decryptDialogs s' ''/dev/sda1'' = None
         \<and> filter presentsDialog (newEvents decryptingState s')
             = [RebootDialog ''Decrypt device'' ''Please reboot to decrypt device Data(sda1).''])
   \<and> (\<exists>s'. onDecryptResult sampleGlobals 0 ''/dev/sda1'' ''Data'' [] (- 1) decryptingState = Inr s'
         \<and> decryptDialogs s' ''/dev/sda1'' = None
         \<and> filter presentsDialog (newEvents decryptingState s')
             = [ShowDialog ''Decrypt disk'' ''User cancelled operation'' kInfo])"
proof -
  have h: "entryLive decryptingState (decryptDialogs decryptingState ''/dev/sda1'')"
    by (simp add: entryLive_def decryptingState_def dialogAt_def)
  have c: "(- 4 :: cint) = - kRebootRequired sampleGlobals"
    and c': "(- 1 :: cint) \<noteq> - kRebootRequired sampleGlobals"
    by (simp_all add: sampleGlobals_def)
  have l: "deviceLabel ''Data'' ''/dev/sda1'' = ''Data(sda1)''"
    by (simp add: deviceLabel_plain)
  have m: "arg ''Please reboot to decrypt device %1.'' ''Data(sda1)''
      = ''Please reboot to decrypt device Data(sda1).''"
    by (simp add: arg_def isDigit_def digitValue_def)
  have u: "newEvents decryptingState
             (showDecryptError sampleGlobals ''/dev/sda1'' ''Data'' (- 1) decryptingState)
      = [ShowDialog ''Decrypt disk'' ''User cancelled operation'' kInfo]"
    by (simp add: newEvents_def showDecryptError_def showDialog_def emit_def sampleGlobals_def)
  from decrypt_result_removes_then_presents [OF h, of sampleGlobals 0 "''Data''" "[]" "- 4"] c
  have a: "\<exists>s'. onDecryptResult sampleGlobals 0 ''/dev/sda1'' ''Data'' [] (- 4) decryptingState = Inr s'
         \<and> decryptDialogs s' ''/dev/sda1'' = None
         \<and> filter presentsDialog (newEvents decryptingState s')
             = [RebootDialog ''Decrypt device'' ''Please reboot to decrypt device Data(sda1).'']"
    by (auto simp: l m)
  from decrypt_result_removes_then_presents [OF h, of sampleGlobals 0 "''Data''" "[]" "- 1"] c' u
  have b: "\<exists>s'. onDecryptResult sampleGlobals 0 ''/dev/sda1'' ''Data'' [] (- 1) decryptingState = Inr s'
         \<and> decryptDialogs s' ''/dev/sda1'' = None
         \<and> filter presentsDialog (newEvents decryptingState s')
             = [ShowDialog ''Decrypt disk'' ''User cancelled operation'' kInfo]"
    by auto
  from h a b show ?thesis by blast
qed

text \<open>
  C6: with \<^verbatim>\<open>kSuccess\<close> = 0 and the three case labels distinct, \<^verbatim>\<open>showDecryptError\<close>
  shows "Decrypt done" as information for code 0, "Decrypt disk" with "User cancelled
  operation" as information for the negated \<^verbatim>\<open>kUserCancelled\<close>, and "Decrypt disk" with
  the wrong-passphrase-or-PIN message (spelled as in the source) as an error for the negated
  \<^verbatim>\<open>kErrorWrongPassphrase\<close>; for every other code it shows "Decrypt failed" as an error,
  with a message that contains the decimal rendering of the code.
\<close>

theorem decrypt_outcome_mapping:
  assumes "kSuccess g = 0"
    and "distinct [kSuccess g, kUserCancelled g, kErrorWrongPassphrase g]"
  shows "newEvents s (showDecryptError g dev devName 0 s)
           = [ShowDialog ''Decrypt done''
                (arg ''Device %1 has been decrypted'' (deviceLabel devName dev)) kInfo]
       \<and> newEvents s (showDecryptError g dev devName (- kUserCancelled g) s)
           = [ShowDialog ''Decrypt disk'' ''User cancelled operation'' kInfo]
       \<and> newEvents s (showDecryptError g dev devName (- kErrorWrongPassphrase g) s)
           = [ShowDialog ''Decrypt disk'' ''Wrong passpharse or PIN'' kError]
       \<and> (code \<notin> {0, - kUserCancelled g, - kErrorWrongPassphrase g} \<longrightarrow>
            (\<exists>msg. newEvents s (showDecryptError g dev devName code s)
                      = [ShowDialog ''Decrypt failed'' msg kError]
                  \<and> sublist (decimal (sint code)) msg))"
proof (intro conjI impI)
  show "newEvents s (showDecryptError g dev devName 0 s)
           = [ShowDialog ''Decrypt done''
                (arg ''Device %1 has been decrypted'' (deviceLabel devName dev)) kInfo]"
    using assms(1)
    by (simp add: newEvents_def showDecryptError_def showDialog_def emit_def Let_def)
next
  show "newEvents s (showDecryptError g dev devName (- kUserCancelled g) s)
           = [ShowDialog ''Decrypt disk'' ''User cancelled operation'' kInfo]"
    using assms(2)
    by (auto simp: newEvents_def showDecryptError_def showDialog_def emit_def Let_def)
next
  show "newEvents s (showDecryptError g dev devName (- kErrorWrongPassphrase g) s)
           = [ShowDialog ''Decrypt disk'' ''Wrong passpharse or PIN'' kError]"
    using assms(2)
    by (auto simp: newEvents_def showDecryptError_def showDialog_def emit_def Let_def)
next
  assume "code \<notin> {0, - kUserCancelled g, - kErrorWrongPassphrase g}"
  with assms(1) have c: "- code \<noteq> kSuccess g" "- code \<noteq> kUserCancelled g"
      "- code \<noteq> kErrorWrongPassphrase g"
    by (auto simp: neg_code_eq)
  have "newEvents s (showDecryptError g dev devName code s)
      = [ShowDialog ''Decrypt failed''
           (arg (arg ''Device %1 Decrypt failed, please see log for more information.(%2)''
                   (deviceLabel devName dev)) (decimal (sint code))) kError]"
    using c by (simp add: newEvents_def showDecryptError_def showDialog_def emit_def Let_def)
  then show "\<exists>msg. newEvents s (showDecryptError g dev devName code s)
                      = [ShowDialog ''Decrypt failed'' msg kError]
                  \<and> sublist (decimal (sint code)) msg"
    using decrypt_failed_message by blast
qed

theorem decrypt_outcome_mapping_witness:
  "newEvents initialHandler (showDecryptError sampleGlobals ''/dev/sda1'' ''Data'' 0 initialHandler)
     = [ShowDialog ''Decrypt done'' ''Device Data(sda1) has been decrypted'' kInfo]
   \<and> newEvents initialHandler
        (showDecryptError sampleGlobals ''/dev/sda1'' ''Data'' (- 1) initialHandler)
     = [ShowDialog ''Decrypt disk'' ''User cancelled operation'' kInfo]
   \<and> newEvents initialHandler
        (showDecryptError sampleGlobals ''/dev/sda1'' ''Data'' (- 2) initialHandler)
     = [ShowDialog ''Decrypt disk'' ''Wrong passpharse or PIN'' kError]
   \<and> (\<exists>msg. newEvents initialHandler
               (showDecryptError sampleGlobals ''/dev/sda1'' ''Data'' (- 7) initialHandler)
             = [ShowDialog ''Decrypt failed'' msg kError]
           \<and> sublist ''-7'' msg)"
proof -
  have h1: "kSuccess sampleGlobals = 0"
    and h2: "distinct [kSuccess sampleGlobals, kUserCancelled sampleGlobals,
                       kErrorWrongPassphrase sampleGlobals]"
    by (simp_all add: sampleGlobals_def)
  have l: "deviceLabel ''Data'' ''/dev/sda1'' = ''Data(sda1)''"
    by (simp add: deviceLabel_plain)
  have m: "arg ''Device %1 has been decrypted'' ''Data(sda1)'' = ''Device Data(sda1) has been decrypted''"
    by (simp add: arg_def isDigit_def digitValue_def)
  have d: "decimal (- 7) = ''-7''"
    by code_simp
  have n: "(- 7 :: cint) \<notin> {0, - kUserCancelled sampleGlobals, - kErrorWrongPassphrase sampleGlobals}"
    by (simp add: sampleGlobals_def)
  from decrypt_outcome_mapping [OF h1 h2, of initialHandler "''/dev/sda1''" "''Data''" "- 7"] n
  show ?thesis
    by (simp add: l m d sampleGlobals_def)
qed

section \<open>The wait cursor\<close>

text \<open>
  C8, as stated, fails in two ways. The two progress handlers call
  \<^verbatim>\<open>restoreOverrideCursor\<close> only inside the branch that creates a dialog: with the
  encryption dialog of \<^verbatim>\<open>/dev/sda1\<close> registered and a wait cursor set, the next progress
  notification shows the dialog and leaves the wait cursor on. And a result handler undoes
  one override cursor only: with two of them set, the change-passphrase result dialog is
  presented while one is still set.
\<close>

theorem progress_shows_dialog_under_wait_cursor:
  "onEncryptProgress ''/dev/sda1'' ''Data'' (1 / 2) encryptingState
     = Inr (encryptingState
             \<lparr>dialogs := [Some \<lparr>dlgTitle = ''Encrypting...Data(sda1)'', dlgProgress = Some (1 / 2),
                                dlgVisible = True,
                                destroyedSlots = [RemoveEncryptDialog ''/dev/sda1'']\<rparr>],
              events := events encryptingState @ [UpdateProgress 0 (1 / 2), ShowProcessDialog 0]\<rparr>)
   \<and> \<not> clearedBeforeDialog
         (newEvents encryptingState
            (encryptingState
             \<lparr>dialogs := [Some \<lparr>dlgTitle = ''Encrypting...Data(sda1)'', dlgProgress = Some (1 / 2),
                                dlgVisible = True,
                                destroyedSlots = [RemoveEncryptDialog ''/dev/sda1'']\<rparr>],
              events := events encryptingState @ [UpdateProgress 0 (1 / 2), ShowProcessDialog 0]\<rparr>))
   \<and> overrideCursors
         (encryptingState
             \<lparr>dialogs := [Some \<lparr>dlgTitle = ''Encrypting...Data(sda1)'', dlgProgress = Some (1 / 2),
                                dlgVisible = True,
                                destroyedSlots = [RemoveEncryptDialog ''/dev/sda1'']\<rparr>],
              events := events encryptingState @ [UpdateProgress 0 (1 / 2), ShowProcessDialog 0]\<rparr>)
       = 1
   \<and> overrideCursors twoCursorsState = 2
   \<and> newEvents twoCursorsState
         (onChgPassphraseResult sampleGlobals ''/dev/sda1'' ''Data'' [] 0 twoCursorsState)
       = [RestoreOverrideCursor,
          ShowDialog ''Change passphrase done''
            (''Data(sda1)'' @ [CHR 0x27] @ ''s passphrase has been changed'') kInfo]
   \<and> dialogUnderCursor (overrideCursors twoCursorsState)
         (newEvents twoCursorsState
            (onChgPassphraseResult sampleGlobals ''/dev/sda1'' ''Data'' [] 0 twoCursorsState))
   \<and> overrideCursors
         (onChgPassphraseResult sampleGlobals ''/dev/sda1'' ''Data'' [] 0 twoCursorsState) = 1"
proof -
  have r: "encryptDialogs encryptingState ''/dev/sda1'' = Some 0"
    by (simp add: encryptingState_def)
  have d: "dialogAt encryptingState 0
      = Some \<lparr>dlgTitle = ''Encrypting...Data(sda1)'', dlgProgress = Some (1 / 4),
               dlgVisible = True, destroyedSlots = [RemoveEncryptDialog ''/dev/sda1'']\<rparr>"
    by (simp add: encryptingState_def dialogAt_def)
  have p: "onEncryptProgress ''/dev/sda1'' ''Data'' (1 / 2) encryptingState
     = Inr (encryptingState
             \<lparr>dialogs := [Some \<lparr>dlgTitle = ''Encrypting...Data(sda1)'', dlgProgress = Some (1 / 2),
                                dlgVisible = True,
                                destroyedSlots = [RemoveEncryptDialog ''/dev/sda1'']\<rparr>],
              events := events encryptingState @ [UpdateProgress 0 (1 / 2), ShowProcessDialog 0]\<rparr>)"
    by (simp add: onEncryptProgress_update [OF r d]) (simp add: encryptingState_def)
  have l: "deviceLabel ''Data'' ''/dev/sda1'' = ''Data(sda1)''"
    by (simp add: deviceLabel_plain)
  have m: "arg (''%1'' @ [CHR 0x27] @ ''s passphrase has been changed'') ''Data(sda1)''
      = ''Data(sda1)'' @ [CHR 0x27] @ ''s passphrase has been changed''"
    by (simp add: arg_def isDigit_def digitValue_def)
  have e: "events (onChgPassphraseResult sampleGlobals ''/dev/sda1'' ''Data'' [] 0 twoCursorsState)
      = events twoCursorsState @ [RestoreOverrideCursor,
          ShowDialog ''Change passphrase done''
            (''Data(sda1)'' @ [CHR 0x27] @ ''s passphrase has been changed'') kInfo]"
    using m
    by (simp add: onChgPassphraseResult_def showChgPwdError_def showDialog_def
          restoreOverrideCursor_def emit_def sampleGlobals_def l)
  have n: "newEvents twoCursorsState
         (onChgPassphraseResult sampleGlobals ''/dev/sda1'' ''Data'' [] 0 twoCursorsState)
       = [RestoreOverrideCursor,
          ShowDialog ''Change passphrase done''
            (''Data(sda1)'' @ [CHR 0x27] @ ''s passphrase has been changed'') kInfo]"
    using e by (rule newEvents_append)
  have c2: "overrideCursors twoCursorsState = 2"
    by (simp add: twoCursorsState_def)
  have u: "dialogUnderCursor (overrideCursors twoCursorsState)
         (newEvents twoCursorsState
            (onChgPassphraseResult sampleGlobals ''/dev/sda1'' ''Data'' [] 0 twoCursorsState))"
    unfolding n c2 by simp
  have o: "overrideCursors
         (onChgPassphraseResult sampleGlobals ''/dev/sda1'' ''Data'' [] 0 twoCursorsState) = 1"
    using onChgPassphraseResult_cursor [of twoCursorsState sampleGlobals "''/dev/sda1''" "''Data''" "[]" 0 0]
    by (simp add: c2)
  have nc: "\<not> clearedBeforeDialog
         (newEvents encryptingState
            (encryptingState
             \<lparr>dialogs := [Some \<lparr>dlgTitle = ''Encrypting...Data(sda1)'', dlgProgress = Some (1 / 2),
                                dlgVisible = True,
                                destroyedSlots = [RemoveEncryptDialog ''/dev/sda1'']\<rparr>],
              events := events encryptingState @ [UpdateProgress 0 (1 / 2), ShowProcessDialog 0]\<rparr>))"
    by (simp add: newEvents_def)
  have o1: "overrideCursors
         (encryptingState
             \<lparr>dialogs := [Some \<lparr>dlgTitle = ''Encrypting...Data(sda1)'', dlgProgress = Some (1 / 2),
                                dlgVisible = True,
                                destroyedSlots = [RemoveEncryptDialog ''/dev/sda1'']\<rparr>],
              events := events encryptingState @ [UpdateProgress 0 (1 / 2), ShowProcessDialog 0]\<rparr>)
       = 1"
    by (simp add: encryptingState_def)
  from p nc o1 c2 n u o show ?thesis by blast
qed

text \<open>
  C8 (amended): each of the four result handlers calls \<^verbatim>\<open>restoreOverrideCursor\<close>, which
  undoes one override cursor, before it presents a dialog, and so does each of the two
  progress handlers when it creates the dialog of a device that is not registered; the
  dialog is then presented without a busy cursor exactly when at most one override cursor
  was set. A progress handler that finds the device registered updates and shows the
  existing dialog and leaves the cursor as it is.
\<close>

theorem cursor_cleared_before_dialog:
  "clearedBeforeDialog (newEvents s (onPreencryptResult g choice dev devName aux code s))
   \<and> dialogUnderCursor (overrideCursors s)
         (newEvents s (onPreencryptResult g choice dev devName aux code s))
       = (2 \<le> overrideCursors s)
   \<and> clearedBeforeDialog (newEvents s (onChgPassphraseResult g dev devName aux code s))
   \<and> dialogUnderCursor (overrideCursors s)
         (newEvents s (onChgPassphraseResult g dev devName aux code s))
       = (2 \<le> overrideCursors s)
   \<and> (\<forall>s'. onEncryptResult dev devName code s = Inr s' \<longrightarrow>
          clearedBeforeDialog (newEvents s s')
          \<and> dialogUnderCursor (overrideCursors s) (newEvents s s') = (2 \<le> overrideCursors s))
   \<and> (\<forall>s'. onDecryptResult g choice dev devName aux code s = Inr s' \<longrightarrow>
          clearedBeforeDialog (newEvents s s')
          \<and> dialogUnderCursor (overrideCursors s) (newEvents s s') = (2 \<le> overrideCursors s))
   \<and> (encryptDialogs s dev = None \<longrightarrow>
        (\<exists>s'. onEncryptProgress dev devName v s = Inr s'
           \<and> clearedBeforeDialog (newEvents s s')
           \<and> dialogUnderCursor (overrideCursors s) (newEvents s s') = (2 \<le> overrideCursors s)))
   \<and> (decryptDialogs s dev = None \<longrightarrow>
        (\<exists>s'. onDecryptProgress dev devName v s = Inr s'
           \<and> clearedBeforeDialog (newEvents s s')
           \<and> dialogUnderCursor (overrideCursors s) (newEvents s s') = (2 \<le> overrideCursors s)))
   \<and> (\<forall>p s'. encryptDialogs s dev = Some p \<and> onEncryptProgress dev devName v s = Inr s' \<longrightarrow>
          newEvents s s' = [UpdateProgress p v, ShowProcessDialog p]
          \<and> overrideCursors s' = overrideCursors s
          \<and> dialogUnderCursor (overrideCursors s) (newEvents s s') = (1 \<le> overrideCursors s))
   \<and> (\<forall>p s'. decryptDialogs s dev = Some p \<and> onDecryptProgress dev devName v s = Inr s' \<longrightarrow>
          newEvents s s' = [UpdateProgress p v, ShowProcessDialog p]
          \<and> overrideCursors s' = overrideCursors s
          \<and> dialogUnderCursor (overrideCursors s) (newEvents s s') = (1 \<le> overrideCursors s))"
proof (intro conjI impI allI)
  show "clearedBeforeDialog (newEvents s (onPreencryptResult g choice dev devName aux code s))"
    using onPreencryptResult_cursor by blast
next
  show "dialogUnderCursor (overrideCursors s)
         (newEvents s (onPreencryptResult g choice dev devName aux code s))
       = (2 \<le> overrideCursors s)"
    using onPreencryptResult_cursor by blast
next
  show "clearedBeforeDialog (newEvents s (onChgPassphraseResult g dev devName aux code s))"
    using onChgPassphraseResult_cursor by blast
next
  show "dialogUnderCursor (overrideCursors s)
         (newEvents s (onChgPassphraseResult g dev devName aux code s))
       = (2 \<le> overrideCursors s)"
    using onChgPassphraseResult_cursor by blast
next
  fix s' assume "onEncryptResult dev devName code s = Inr s'"
  from onEncryptResult_cursor [OF this, of "overrideCursors s"]
  show "clearedBeforeDialog (newEvents s s')"
    and "dialogUnderCursor (overrideCursors s) (newEvents s s') = (2 \<le> overrideCursors s)"
    by simp_all
next
  fix s' assume "onDecryptResult g choice dev devName aux code s = Inr s'"
  from onDecryptResult_cursor [OF this, of "overrideCursors s"]
  show "clearedBeforeDialog (newEvents s s')"
    and "dialogUnderCursor (overrideCursors s) (newEvents s s') = (2 \<le> overrideCursors s)"
    by simp_all
next
  assume n: "encryptDialogs s dev = None"
  obtain s' where r: "onEncryptProgress dev devName v s = Inr s'"
    by (simp add: onEncryptProgress_new [OF n])
  from onEncryptProgress_cursor [OF r, of "overrideCursors s"] n r
  show "\<exists>s'. onEncryptProgress dev devName v s = Inr s'
           \<and> clearedBeforeDialog (newEvents s s')
           \<and> dialogUnderCursor (overrideCursors s) (newEvents s s') = (2 \<le> overrideCursors s)"
    by simp
next
  assume n: "decryptDialogs s dev = None"
  obtain s' where r: "onDecryptProgress dev devName v s = Inr s'"
    by (simp add: onDecryptProgress_new [OF n])
  from onDecryptProgress_cursor [OF r, of "overrideCursors s"] n r
  show "\<exists>s'. onDecryptProgress dev devName v s = Inr s'
           \<and> clearedBeforeDialog (newEvents s s')
           \<and> dialogUnderCursor (overrideCursors s) (newEvents s s') = (2 \<le> overrideCursors s)"
    by simp
next
  fix p s' assume a: "encryptDialogs s dev = Some p \<and> onEncryptProgress dev devName v s = Inr s'"
  then have r: "onEncryptProgress dev devName v s = Inr s'" by simp
  from onEncryptProgress_cursor [OF r, of "overrideCursors s"] a
  show "newEvents s s' = [UpdateProgress p v, ShowProcessDialog p]"
    and "overrideCursors s' = overrideCursors s"
    and "dialogUnderCursor (overrideCursors s) (newEvents s s') = (1 \<le> overrideCursors s)"
    by auto
next
  fix p s' assume a: "decryptDialogs s dev = Some p \<and> onDecryptProgress dev devName v s = Inr s'"
  then have r: "onDecryptProgress dev devName v s = Inr s'" by simp
  from onDecryptProgress_cursor [OF r, of "overrideCursors s"] a
  show "newEvents s s' = [UpdateProgress p v, ShowProcessDialog p]"
    and "overrideCursors s' = overrideCursors s"
    and "dialogUnderCursor (overrideCursors s) (newEvents s s') = (1 \<le> overrideCursors s)"
    by auto
qed

theorem cursor_cleared_before_dialog_witness:
  "encryptDialogs encryptingState ''/dev/sda1'' = Some 0
   \<and> decryptDialogs encryptingState ''/dev/sda1'' = None
   \<and> overrideCursors encryptingState = 1
   \<and> (\<exists>s'. onEncryptResult ''/dev/sda1'' ''Data'' 0 encryptingState = Inr s'
          \<and> clearedBeforeDialog (newEvents encryptingState s')
          \<and> \<not> dialogUnderCursor 1 (newEvents encryptingState s'))
   \<and> (\<exists>s'. onDecryptProgress ''/dev/sda1'' ''Data'' (1 / 2) encryptingState = Inr s'
          \<and> clearedBeforeDialog (newEvents encryptingState s')
          \<and> \<not> dialogUnderCursor 1 (newEvents encryptingState s'))
   \<and> (\<exists>s'. onEncryptProgress ''/dev/sda1'' ''Data'' (1 / 2) encryptingState = Inr s'
          \<and> newEvents encryptingState s' = [UpdateProgress 0 (1 / 2), ShowProcessDialog 0]
          \<and> overrideCursors s' = 1
          \<and> dialogUnderCursor 1 (newEvents encryptingState s'))"
proof -
  have r: "encryptDialogs encryptingState ''/dev/sda1'' = Some 0"
    and n: "decryptDialogs encryptingState ''/dev/sda1'' = None"
    and c: "overrideCursors encryptingState = 1"
    by (simp_all add: encryptingState_def)
  have d: "dialogAt encryptingState 0 \<noteq> None"
    by (simp add: encryptingState_def dialogAt_def)
  then obtain dl where dl: "dialogAt encryptingState 0 = Some dl" by blast
  obtain s1 where s1: "onEncryptResult ''/dev/sda1'' ''Data'' 0 encryptingState = Inr s1"
    using onEncryptResult_live [OF r dl, of "''Data''" 0] by blast
  obtain s2 where s2: "onEncryptProgress ''/dev/sda1'' ''Data'' (1 / 2) encryptingState = Inr s2"
    by (simp add: onEncryptProgress_update [OF r dl])
  note t = cursor_cleared_before_dialog [of encryptingState sampleGlobals 0 "''/dev/sda1''"
      "''Data''" "[]" 0 "1 / 2"]
  from t s1 c have a: "clearedBeforeDialog (newEvents encryptingState s1)
      \<and> \<not> dialogUnderCursor 1 (newEvents encryptingState s1)"
    by simp
  from t n c have b: "\<exists>s'. onDecryptProgress ''/dev/sda1'' ''Data'' (1 / 2) encryptingState = Inr s'
          \<and> clearedBeforeDialog (newEvents encryptingState s')
          \<and> \<not> dialogUnderCursor 1 (newEvents encryptingState s')"
    by simp
  from t r s2 c have e: "newEvents encryptingState s2 = [UpdateProgress 0 (1 / 2), ShowProcessDialog 0]
      \<and> overrideCursors s2 = 1 \<and> dialogUnderCursor 1 (newEvents encryptingState s2)"
    by simp
  from r n c s1 a b s2 e show ?thesis by blast
qed

section \<open>The label of a device\<close>

text \<open>
  C10 describes the label the code is written to build, and the code builds it for every
  display name without a percent sign (\<open>deviceLabel_plain\<close>). The two chained calls of
  \<^verbatim>\<open>arg\<close> go wrong on a display name that itself holds a place marker: the second call
  replaces the lowest-numbered marker left in the string, which is the one inside the name.
  For the display name \<^verbatim>\<open>%1\<close> and the device \<^verbatim>\<open>/dev/sda1\<close> the label is \<^verbatim>\<open>sda1(%2)\<close>
  where the claim gives \<^verbatim>\<open>%1(sda1)\<close>.
\<close>

theorem label_of_name_with_place_marker:
  "deviceLabel ''%1'' ''/dev/sda1'' = ''sda1(%2)''
   \<and> deviceLabel ''%1'' ''/dev/sda1'' \<noteq> ''%1'' @ ''('' @ drop 5 ''/dev/sda1'' @ '')''
   \<and> onEncryptResult ''/dev/sda1'' ''%1'' 0 initialHandler
       = Inr (initialHandler
               \<lparr>events := [RestoreOverrideCursor,
                           ShowDialog ''Encrypt done'' ''Device sda1(%2) has been encrypted''
                             kInfo]\<rparr>)"
proof -
  have l: "deviceLabel ''%1'' ''/dev/sda1'' = ''sda1(%2)''"
    by (simp add: deviceLabel_def arg_def mid_def isDigit_def digitValue_def)
  have m: "arg ''Device %1 has been encrypted'' ''sda1(%2)'' = ''Device sda1(%2) has been encrypted''"
    by (simp add: arg_def isDigit_def digitValue_def)
  have "onEncryptResult ''/dev/sda1'' ''%1'' 0 initialHandler
       = Inr (initialHandler
               \<lparr>events := [RestoreOverrideCursor,
                           ShowDialog ''Encrypt done'' ''Device sda1(%2) has been encrypted''
                             kInfo]\<rparr>)"
    by (simp add: onEncryptResult_def restoreOverrideCursor_def emit_def showDialog_def
          initialHandler_def l m)
  with l show ?thesis by simp
qed

end
